theory Spec2Isabelle
  imports Complex_Main "HOL-Library.Word"
begin

section \<open>JavaScript numbers\<close>

text \<open>
  A JavaScript number is an IEEE-754 binary64 value. The finite ones are modelled by the
  reals they denote, and every arithmetic operation of the source rounds its exact result
  to the nearest binary64 value, ties to even (\<open>fl\<close>): 53 significant bits, the least
  exponent \<open>-1022\<close> with gradual underflow below it, and overflow to an infinity from
  \<open>2 ^ 1024\<close> on. The two zeros are not told apart: the source never divides by a
  computed zero, and a comparison does not see the sign of a zero.
\<close>

definition pw2 :: "int \<Rightarrow> real" where
  "pw2 e = 2 powi e"

text \<open>The nearest integer, a tie going to the even one.\<close>

definition rne :: "real \<Rightarrow> int" where
  "rne y = (let f = \<lfloor>y\<rfloor>; d = y - of_int f
            in if d < 1 / 2 then f else if 1 / 2 < d then f + 1
               else if even f then f else f + 1)"

text \<open>The binary exponent of a number, \<open>-1022\<close> for the subnormal ones and for zero.\<close>

definition expo :: "real \<Rightarrow> int" where
  "expo x = (if \<bar>x\<bar> < pw2 (- 1022) then - 1022 else \<lfloor>log 2 \<bar>x\<bar>\<rfloor>)"

text \<open>Rounding to 53 significant bits: to a multiple of \<open>2 ^ (expo x - 52)\<close>.\<close>

definition fl :: "real \<Rightarrow> real" where
  "fl x = pw2 (expo x - 52) * of_int (rne (x / pw2 (expo x - 52)))"

datatype jsnum = NaN | PInf | NInf | Num real

text \<open>The number value of an exact result: rounded, an infinity when out of range.\<close>

definition rnd :: "real \<Rightarrow> jsnum" where
  "rnd x = (if pw2 1024 \<le> fl x then PInf
            else if fl x \<le> - pw2 1024 then NInf else Num (fl x))"

fun jsgn :: "jsnum \<Rightarrow> real" where
  "jsgn (Num a) = sgn a"
| "jsgn PInf = 1"
| "jsgn NInf = - 1"
| "jsgn NaN = 0"

definition inf_sgn :: "real \<Rightarrow> jsnum" where
  "inf_sgn s = (if s = 0 then NaN else if 0 < s then PInf else NInf)"

text \<open>\<open>a + b\<close>\<close>

fun jadd :: "jsnum \<Rightarrow> jsnum \<Rightarrow> jsnum" where
  "jadd (Num a) (Num b) = rnd (a + b)"
| "jadd NaN _ = NaN"
| "jadd _ NaN = NaN"
| "jadd PInf NInf = NaN"
| "jadd NInf PInf = NaN"
| "jadd PInf _ = PInf"
| "jadd _ PInf = PInf"
| "jadd NInf _ = NInf"
| "jadd _ NInf = NInf"

text \<open>\<open>a * b\<close>: an infinity times zero is \<open>NaN\<close>.\<close>

fun jmul :: "jsnum \<Rightarrow> jsnum \<Rightarrow> jsnum" where
  "jmul (Num a) (Num b) = rnd (a * b)"
| "jmul NaN _ = NaN"
| "jmul _ NaN = NaN"
| "jmul x y = inf_sgn (jsgn x * jsgn y)"

text \<open>
  \<open>a / b\<close>: \<open>0 / 0\<close> is \<open>NaN\<close>, another finite number over zero is an infinity, a
  finite number over an infinity is zero and an infinity over an infinity is \<open>NaN\<close>.
\<close>

fun jdiv :: "jsnum \<Rightarrow> jsnum \<Rightarrow> jsnum" where
  "jdiv (Num a) (Num b) = (if b = 0 then inf_sgn (sgn a) else rnd (a / b))"
| "jdiv NaN _ = NaN"
| "jdiv _ NaN = NaN"
| "jdiv (Num a) _ = Num 0"
| "jdiv x (Num b) = (if b < 0 then inf_sgn (- jsgn x) else x)"
| "jdiv _ _ = NaN"

text \<open>\<open>a > b\<close>: false as soon as one side is \<open>NaN\<close>.\<close>

fun jgt :: "jsnum \<Rightarrow> jsnum \<Rightarrow> bool" where
  "jgt (Num a) (Num b) = (b < a)"
| "jgt NaN _ = False"
| "jgt _ NaN = False"
| "jgt PInf PInf = False"
| "jgt PInf _ = True"
| "jgt _ PInf = False"
| "jgt NInf _ = False"
| "jgt _ NInf = True"

text \<open>
  \<open>Math.pow(a, 1.5)\<close>: \<open>NaN\<close> for a negative finite base, since the exponent is not an
  integer. The language leaves the accuracy of \<open>Math.pow\<close> to the implementation; the
  model takes the correctly rounded power.
\<close>

fun jpow15 :: "jsnum \<Rightarrow> jsnum" where
  "jpow15 (Num a) = (if a < 0 then NaN else rnd (a powr 1.5))"
| "jpow15 NaN = NaN"
| "jpow15 PInf = PInf"
| "jpow15 NInf = PInf"

text \<open>\<open>arr.reduce((sum, val) => sum + val, 0)\<close>\<close>

definition jsum :: "jsnum list \<Rightarrow> jsnum" where
  "jsum arr = foldl jadd (Num 0) arr"

text \<open>
  \<open>arr.reduce((sum, val) => sum + val, 0) / arr.length\<close>, the expression the source
  writes three times. On the empty array it is \<open>0 / 0\<close>.
\<close>

definition mean :: "jsnum list \<Rightarrow> jsnum" where
  "mean arr = jdiv (jsum arr) (Num (real (length arr)))"

text \<open>\<open>arr.slice(start, end)\<close> for non-negative indices: both ends are clamped to the length.\<close>

definition slice :: "'a list \<Rightarrow> nat \<Rightarrow> nat \<Rightarrow> 'a list" where
  "slice arr start end' = take (end' - start) (drop start arr)"

section \<open>Audio feature extraction (\<open>src/utils/audioParse.js\<close>)\<close>

definition averageRange :: "jsnum list \<Rightarrow> nat \<Rightarrow> nat \<Rightarrow> jsnum" where
  "averageRange data start end' = mean (slice data start (end' + 1))"

text \<open>
  \<open>findPeaks\<close>: the loop \<open>for (let i = 1; i < data.length - 1; i++)\<close>, with the list of
  peaks pushed so far as accumulator. \<open>i + 1 < length data\<close> is \<open>i < data.length - 1\<close>
  without the truncating subtraction of \<open>nat\<close>.
\<close>

function findPeaks_loop :: "jsnum list \<Rightarrow> nat \<Rightarrow> (nat \<times> jsnum) list \<Rightarrow> (nat \<times> jsnum) list" where
  "findPeaks_loop data i peaks =
     (if i + 1 < length data
      then findPeaks_loop data (i + 1)
             (if jgt (data ! i) (data ! (i - 1)) \<and> jgt (data ! i) (data ! (i + 1))
                 \<and> jgt (data ! i) (Num 0.5)
              then peaks @ [(i, data ! i)] else peaks)
      else peaks)"
  by pat_completeness auto
termination
  by (relation "measure (\<lambda>(data, i, peaks). length data - i)") auto

declare findPeaks_loop.simps [simp del]

definition findPeaks :: "jsnum list \<Rightarrow> (nat \<times> jsnum) list" where
  "findPeaks data = findPeaks_loop data 1 []"

text \<open>
  The module-level variables \<open>lastBeatTime\<close> and \<open>beatHistory\<close> are the state of the beat
  detector; \<open>Date.now()\<close> is its input \<open>now\<close>, in whole milliseconds.
\<close>

record beatState =
  lastBeatTime :: int
  beatHistory :: "jsnum list"

definition initialBeatState :: beatState where
  "initialBeatState = \<lparr>lastBeatTime = 0, beatHistory = []\<rparr>"

text \<open>\<open>beatHistory.push(currentEnergy); if (beatHistory.length > 8) beatHistory.shift();\<close>\<close>

definition pushHistory :: "jsnum list \<Rightarrow> jsnum \<Rightarrow> jsnum list" where
  "pushHistory history currentEnergy =
     (let pushed = history @ [currentEnergy]
      in if length pushed > 8 then tl pushed else pushed)"

definition detectBeat :: "int \<Rightarrow> jsnum list \<Rightarrow> beatState \<Rightarrow> bool \<times> beatState" where
  "detectBeat now data st =
     (let minBeatInterval = 250;
          currentEnergy = averageRange data 0 10;
          history = pushHistory (beatHistory st) currentEnergy;
          averageEnergy = mean history
      in if jgt currentEnergy (jmul averageEnergy (Num 1.5))
            \<and> now - lastBeatTime st > minBeatInterval
         then (True, \<lparr>lastBeatTime = now, beatHistory = history\<rparr>)
         else (False, \<lparr>lastBeatTime = lastBeatTime st, beatHistory = history\<rparr>))"

text \<open>
  A run of the detector: the calls in order, each with its timestamp and its normalized
  snapshot, and for each call what it returned and the state it left.
\<close>

fun detectBeats :: "(int \<times> jsnum list) list \<Rightarrow> beatState \<Rightarrow> (bool \<times> beatState) list" where
  "detectBeats [] st = []"
| "detectBeats (c # cs) st =
     detectBeat (fst c) (snd c) st # detectBeats cs (snd (detectBeat (fst c) (snd c) st))"

text \<open>
  \<open>processAudioData\<close>. The argument is a \<open>Uint8Array\<close>, a list of bytes. The fields of
  the result keep their names, but for \<open>metrics.amplitude\<close> and \<open>visualParams.patternSize\<close>,
  which a vertex and the user's parameters have too. The function has no \<open>throw\<close>, and
  every operation it applies is defined on every array of bytes: it always returns.
\<close>

record audioMetrics =
  amplitude_m :: jsnum
  peaks :: "(nat \<times> jsnum) list"
  lowFreq :: jsnum
  midFreq :: jsnum
  highFreq :: jsnum
  beatDetected :: bool

record visualParameters =
  intensity :: jsnum
  speed :: jsnum
  colorIntensity :: jsnum
  patternSize_vp :: jsnum
  complexity :: jsnum

record processedData =
  waveform :: "jsnum list"
  metrics :: audioMetrics
  visualParams :: visualParameters

text \<open>\<open>Array.from(audioData).map(val => val / 255)\<close>\<close>

definition normalizedData :: "8 word list \<Rightarrow> jsnum list" where
  "normalizedData audioData = map (\<lambda>val. jdiv (Num (real (unat val))) (Num 255)) audioData"

definition processAudioData :: "int \<Rightarrow> 8 word list \<Rightarrow> beatState \<Rightarrow> processedData \<times> beatState" where
  "processAudioData now audioData st =
     (let data = normalizedData audioData;
          beat = detectBeat now data st;
          m = \<lparr>amplitude_m = mean data,
               peaks = findPeaks data,
               lowFreq = averageRange data 0 10,
               midFreq = averageRange data 11 100,
               highFreq = averageRange data 101 255,
               beatDetected = fst beat\<rparr>
      in (\<lparr>waveform = data,
           metrics = m,
           visualParams =
             \<lparr>intensity = jpow15 (jmul (amplitude_m m) (Num 2)),
              speed = (if beatDetected m then Num 1.5 else Num 1.0),
              colorIntensity = jmul (highFreq m) (Num 1.5),
              patternSize_vp = jadd (Num 1) (jmul (lowFreq m) (Num 0.5)),
              complexity = jadd (Num 1) (jmul (midFreq m) (Num 2))\<rparr>\<rparr>,
          snd beat))"

section \<open>Vertex motion (\<open>src/components/MikeDropViz.jsx\<close>)\<close>

text \<open>
  The numbers of the motion engine (coordinates, parameters, modulation) are finite and
  stay far from the overflow threshold; they are modelled as reals. The hue and the edges
  use \<open>+\<close>, \<open>-\<close>, \<open>*\<close>, \<open>/\<close>, \<open>%\<close> and \<open>Math.hypot\<close> only, and the model rounds them with
  \<open>fl\<close>. A position goes through \<open>Math.sin\<close> and \<open>Math.cos\<close>, whose accuracy the language
  leaves to the implementation: the position terms, and the phase that only they read,
  are the exact ones. The fields \<open>x\<close> and \<open>y\<close> of a vertex are \<open>vertex_x\<close> and
  \<open>vertex_y\<close> here.
\<close>

record vertex =
  vertex_x :: real
  vertex_y :: real
  vx :: real
  vy :: real
  phase :: real
  hue :: real
  amplitude :: real
  frequency :: real

record animationState =
  isPlaying :: bool
  frame :: nat

record parameters =
  flowSpeed :: real
  colorSpeed :: real
  waveIntensity :: real
  patternSize :: real

record audioModulation =
  speedMod :: real
  intensityMod :: real
  sizeMod :: real

text \<open>
  The initial vertices. \<open>random\<close> is the sequence of values \<open>Math.random()\<close> returns:
  five for each vertex, in the order of the fields \<open>vx\<close>, \<open>vy\<close>, \<open>phase\<close>,
  \<open>amplitude\<close>, \<open>frequency\<close>.
\<close>

definition initialVertex :: "(nat \<Rightarrow> real) \<Rightarrow> nat \<Rightarrow> vertex" where
  "initialVertex random i =
     \<lparr>vertex_x = 400 + cos (real i * pi / 12) * 200,
      vertex_y = 300 + sin (real i * pi / 12) * 200,
      vx = (random (5 * i) - 0.5) * 2,
      vy = (random (5 * i + 1) - 0.5) * 2,
      phase = random (5 * i + 2) * pi * 2,
      hue = real i * 15,
      amplitude = 1 + random (5 * i + 3),
      frequency = 0.5 + random (5 * i + 4) * 0.5\<rparr>"

definition initialVertices :: "(nat \<Rightarrow> real) \<Rightarrow> vertex list" where
  "initialVertices random = map (initialVertex random) [0..<24]"

definition initialAnimationState :: animationState where
  "initialAnimationState = \<lparr>isPlaying = False, frame = 0\<rparr>"

text \<open>
  \<open>a % n\<close> on numbers: the remainder of the division truncated towards zero, with the
  sign of \<open>a\<close>. The remainder of two binary64 values is one, so \<open>%\<close> does not round. The
  source only divides by \<open>360\<close>.
\<close>

definition jsmod :: "real \<Rightarrow> real \<Rightarrow> real" where
  "jsmod a n = a - n * of_int (if 0 \<le> a / n then \<lfloor>a / n\<rfloor> else \<lceil>a / n\<rceil>)"

text \<open>The local constants of the callback of \<open>prev.map\<close> in \<open>updateVertices\<close>.\<close>

definition effectiveSpeed :: "parameters \<Rightarrow> audioModulation \<Rightarrow> real" where
  "effectiveSpeed p am = flowSpeed p * speedMod am"

definition effectiveIntensity :: "parameters \<Rightarrow> audioModulation \<Rightarrow> real" where
  "effectiveIntensity p am = waveIntensity p * intensityMod am"

definition effectiveSize :: "parameters \<Rightarrow> audioModulation \<Rightarrow> real" where
  "effectiveSize p am = patternSize p * sizeMod am"

definition time :: "animationState \<Rightarrow> parameters \<Rightarrow> audioModulation \<Rightarrow> real" where
  "time anim p am = real (frame anim) * 0.02 * effectiveSpeed p am"

definition waveTime :: "animationState \<Rightarrow> real" where
  "waveTime anim = real (frame anim) * 0.01"

definition centerX :: "animationState \<Rightarrow> parameters \<Rightarrow> audioModulation \<Rightarrow> nat \<Rightarrow> real" where
  "centerX anim p am i =
     400 + cos (time anim p am * 0.2 + real i * pi / 12) * (200 * effectiveSize p am)"

definition centerY :: "animationState \<Rightarrow> parameters \<Rightarrow> audioModulation \<Rightarrow> nat \<Rightarrow> real" where
  "centerY anim p am i =
     300 + sin (time anim p am * 0.2 + real i * pi / 12) * (200 * effectiveSize p am)"

definition flowX :: "animationState \<Rightarrow> parameters \<Rightarrow> audioModulation \<Rightarrow> vertex \<Rightarrow> real" where
  "flowX anim p am v = sin (time anim p am * frequency v + phase v) * 100 * amplitude v"

definition flowY :: "animationState \<Rightarrow> parameters \<Rightarrow> audioModulation \<Rightarrow> vertex \<Rightarrow> real" where
  "flowY anim p am v = cos (time anim p am * 1.3 * frequency v + phase v) * 100 * amplitude v"

definition waveX :: "animationState \<Rightarrow> parameters \<Rightarrow> audioModulation \<Rightarrow> vertex \<Rightarrow> real" where
  "waveX anim p am v =
     (if isPlaying anim
      then sin (waveTime anim + vertex_y v * 0.02) * 50 * effectiveIntensity p am else 0)"

definition waveY :: "animationState \<Rightarrow> parameters \<Rightarrow> audioModulation \<Rightarrow> vertex \<Rightarrow> real" where
  "waveY anim p am v =
     (if isPlaying anim
      then cos (waveTime anim + vertex_x v * 0.02) * 50 * effectiveIntensity p am else 0)"

text \<open>
  The callback itself: every right-hand side reads the vertex as it was, and
  \<open>{ ...vertex, x, y, phase, hue }\<close> replaces four fields.
\<close>

definition updateVertex ::
  "animationState \<Rightarrow> parameters \<Rightarrow> audioModulation \<Rightarrow> nat \<Rightarrow> vertex \<Rightarrow> vertex" where
  "updateVertex anim p am i v =
     v\<lparr>vertex_x := centerX anim p am i + flowX anim p am v + waveX anim p am v,
       vertex_y := centerY anim p am i + flowY anim p am v + waveY anim p am v,
       phase := phase v + 0.02 * effectiveSpeed p am,
       hue := jsmod (fl (hue v + colorSpeed p)) 360\<rparr>"

definition updateVertices ::
  "animationState \<Rightarrow> parameters \<Rightarrow> audioModulation \<Rightarrow> vertex list \<Rightarrow> vertex list" where
  "updateVertices anim p am prev =
     map (\<lambda>(i, v). updateVertex anim p am i v) (zip [0..<length prev] prev)"

text \<open>
  One motion tick: \<open>updateVertices\<close> maps the vertices and increments the frame counter.
  What the tick reads besides the vertices and the animation state is its input: the
  parameters of the sliders and the audio modulation, as they are when it runs, and
  whether the user has pressed the effect button since the tick before.
\<close>

record tickInput =
  toggled :: bool
  params :: parameters
  modulation :: audioModulation

definition tick :: "tickInput \<Rightarrow> vertex list \<times> animationState \<Rightarrow> vertex list \<times> animationState" where
  "tick inp s =
     (let anim = (if toggled inp then (snd s)\<lparr>isPlaying := \<not> isPlaying (snd s)\<rparr> else snd s)
      in (updateVertices anim (params inp) (modulation inp) (fst s),
          anim\<lparr>frame := frame anim + 1\<rparr>))"

fun ticks :: "tickInput list \<Rightarrow> vertex list \<times> animationState \<Rightarrow> vertex list \<times> animationState" where
  "ticks [] s = s"
| "ticks (inp # inps) s = ticks inps (tick inp s)"

section \<open>Edge rendering\<close>

text \<open>
  \<open>getEdgeStyle\<close>. The stroke is the string \<open>hsla(h, 100%, 50%, a)\<close>; the model keeps
  its two numbers, the hue \<open>h\<close> and the alpha \<open>a\<close>. \<open>null\<close> is \<open>None\<close>. \<open>Math.hypot\<close> is
  taken as the correctly rounded root of the sum of squares, \<open>dist_v\<close> is the constant
  \<open>dist\<close> of the source and \<open>opacity\<close> its constant \<open>opacity\<close>; the literal \<open>0.1\<close> is the
  binary64 value \<open>fl (1 / 10)\<close>.
\<close>

definition hypot :: "real \<Rightarrow> real \<Rightarrow> real" where
  "hypot a b = fl (sqrt (a\<^sup>2 + b\<^sup>2))"

definition dist_v :: "vertex \<Rightarrow> vertex \<Rightarrow> real" where
  "dist_v v1 v2 = hypot (fl (vertex_x v1 - vertex_x v2)) (fl (vertex_y v1 - vertex_y v2))"

definition opacity :: "vertex \<Rightarrow> vertex \<Rightarrow> real" where
  "opacity v1 v2 = max 0 (min 1 (fl (1 - fl (dist_v v1 v2 / 300))))"

record edgeStyle =
  strokeHue :: real
  strokeAlpha :: real
  strokeWidth :: real

definition getEdgeStyle :: "vertex \<Rightarrow> vertex \<Rightarrow> edgeStyle option" where
  "getEdgeStyle v1 v2 =
     (if opacity v1 v2 > fl (1 / 10)
      then Some \<lparr>strokeHue = fl (fl (hue v1 + hue v2) / 2),
                 strokeAlpha = opacity v1 v2,
                 strokeWidth = max 1 (fl (4 * opacity v1 v2))\<rparr>
      else None)"

text \<open>
  The render loop over the pairs \<open>(i, j)\<close>: a line for the pair when \<open>i < j\<close> and
  \<open>getEdgeStyle\<close> gives a style.
\<close>

definition renderEdges :: "vertex list \<Rightarrow> (nat \<times> nat \<times> edgeStyle) list" where
  "renderEdges vertices =
     concat (map (\<lambda>i. concat (map (\<lambda>j.
        if i < j
        then (case getEdgeStyle (vertices ! i) (vertices ! j) of
                Some edgeStyle \<Rightarrow> [(i, j, edgeStyle)]
              | None \<Rightarrow> [])
        else []) [0..<length vertices])) [0..<length vertices])"

section \<open>Rounding\<close>

lemma pw2_pos [simp]: "0 < pw2 e"
  by (simp add: pw2_def)

lemma pw2_nonneg [simp]: "0 \<le> pw2 e"
  by (simp add: pw2_def)

lemma pw2_neq0 [simp]: "pw2 e \<noteq> 0"
  by (simp add: pw2_def)

lemma pw2_add: "pw2 (a + b) = pw2 a * pw2 b"
  by (simp add: pw2_def power_int_add)

lemma pw2_diff: "pw2 (a - b) = pw2 a / pw2 b"
  by (simp add: pw2_def power_int_diff)

lemma pw2_mono: "a \<le> b \<Longrightarrow> pw2 a \<le> pw2 b"
  by (simp add: pw2_def power_int_increasing)

lemma pw2_powr: "pw2 e = 2 powr (real_of_int e)"
  by (simp add: pw2_def powr_real_of_int')

lemma pw2_nat: "0 \<le> e \<Longrightarrow> pw2 e = of_int (2 ^ nat e)"
  by (simp add: pw2_def power_int_nonneg_exp)

lemma rne_of_int [simp]: "rne (of_int k) = k"
  by (simp add: rne_def)

lemma rne_0 [simp]: "rne 0 = 0"
  by (simp add: rne_def)

lemma rne_cases: "rne y = \<lfloor>y\<rfloor> \<or> rne y = \<lfloor>y\<rfloor> + 1"
  by (simp add: rne_def Let_def)

lemma rne_err: "\<bar>of_int (rne y) - y\<bar> \<le> 1 / 2"
proof -
  have "of_int \<lfloor>y\<rfloor> \<le> y" "y < of_int \<lfloor>y\<rfloor> + 1" by linarith+
  then show ?thesis by (auto simp: rne_def Let_def)
qed

lemma rne_mono:
  assumes "a \<le> b"
  shows "rne a \<le> rne b"
proof (cases "\<lfloor>a\<rfloor> < \<lfloor>b\<rfloor>")
  case True
  have "rne a \<le> \<lfloor>a\<rfloor> + 1" using rne_cases [of a] by auto
  moreover have "\<lfloor>b\<rfloor> \<le> rne b" using rne_cases [of b] by auto
  ultimately show ?thesis using True by linarith
next
  case False
  then have "\<lfloor>a\<rfloor> = \<lfloor>b\<rfloor>" using floor_mono [OF assms] by linarith
  then show ?thesis using assms by (auto simp: rne_def Let_def)
qed

lemma rne_minus: "rne (- y) = - rne y"
proof (cases "y = of_int \<lfloor>y\<rfloor>")
  case True
  then obtain k where "y = of_int k" ..
  then show ?thesis by (simp flip: of_int_minus)
next
  case False
  have b: "of_int \<lfloor>y\<rfloor> < y" "y < of_int \<lfloor>y\<rfloor> + 1" using False by linarith+
  have "real_of_int (- \<lfloor>y\<rfloor> - 1) = - real_of_int \<lfloor>y\<rfloor> - 1" by simp
  then have f: "\<lfloor>- y\<rfloor> = - \<lfloor>y\<rfloor> - 1"
    using b unfolding floor_eq_iff by linarith
  show ?thesis using b
    by (auto simp: rne_def Let_def f)
qed

lemma expo_ge: "- 1022 \<le> expo x"
proof (cases "\<bar>x\<bar> < pw2 (- 1022)")
  case True
  then show ?thesis by (simp add: expo_def)
next
  case False
  then have p: "0 < \<bar>x\<bar>" using pw2_pos [of "- 1022"] by linarith
  from False have "2 powr (real_of_int (- 1022)) \<le> \<bar>x\<bar>"
    by (simp only: pw2_powr not_less)
  then have "real_of_int (- 1022) \<le> log 2 \<bar>x\<bar>"
    using le_log_iff [of 2 "\<bar>x\<bar>" "real_of_int (- 1022)"] p by simp
  then have "- 1022 \<le> \<lfloor>log 2 \<bar>x\<bar>\<rfloor>" by (simp only: le_floor_iff)
  then show ?thesis using False by (simp add: expo_def)
qed

lemma expo_normal:
  assumes "pw2 (- 1022) \<le> \<bar>x\<bar>"
  shows "pw2 (expo x) \<le> \<bar>x\<bar> \<and> \<bar>x\<bar> < pw2 (expo x + 1)"
proof -
  have p: "0 < \<bar>x\<bar>" using assms pw2_pos [of "- 1022"] by linarith
  have e: "expo x = \<lfloor>log 2 \<bar>x\<bar>\<rfloor>" using assms by (simp add: expo_def)
  have "2 powr (real_of_int (expo x)) \<le> \<bar>x\<bar> \<and> \<bar>x\<bar> < 2 powr (real_of_int (expo x) + 1)"
    using floor_log_eq_powr_iff [OF p, of 2 "expo x"] e by simp
  moreover have "real_of_int (expo x) + 1 = real_of_int (expo x + 1)" by simp
  ultimately show ?thesis by (simp only: pw2_powr)
qed

lemma expo_subnormal: "\<bar>x\<bar> < pw2 (- 1022) \<Longrightarrow> expo x = - 1022"
  by (simp add: expo_def)

lemma expo_eqI:
  assumes "pw2 e \<le> \<bar>x\<bar>" and "\<bar>x\<bar> < pw2 (e + 1)" and "- 1022 \<le> e"
  shows "expo x = e"
proof -
  have p: "0 < \<bar>x\<bar>" using assms(1) pw2_pos [of e] by linarith
  have "pw2 (- 1022) \<le> pw2 e" using assms(3) by (rule pw2_mono)
  then have n: "\<not> \<bar>x\<bar> < pw2 (- 1022)" using assms(1) by linarith
  have "real_of_int e + 1 = real_of_int (e + 1)" by simp
  then have "2 powr (real_of_int e) \<le> \<bar>x\<bar> \<and> \<bar>x\<bar> < 2 powr (real_of_int e + 1)"
    using assms(1,2) by (simp only: pw2_powr)
  then have "\<lfloor>log 2 \<bar>x\<bar>\<rfloor> = e"
    using floor_log_eq_powr_iff [OF p, of 2 e] by simp
  then show ?thesis using n by (simp add: expo_def)
qed

lemma expo_minus [simp]: "expo (- x) = expo x"
  by (simp add: expo_def)

lemma fl_minus: "fl (- x) = - fl x"
  by (simp add: fl_def rne_minus)

lemma fl_0 [simp]: "fl 0 = 0"
  by (simp add: fl_def)

lemma fl_eval:
  assumes "pw2 e \<le> \<bar>x\<bar>" and "\<bar>x\<bar> < pw2 (e + 1)" and "- 1022 \<le> e"
  shows "fl x = pw2 (e - 52) * of_int (rne (x / pw2 (e - 52)))"
  using expo_eqI [OF assms] by (simp add: fl_def)


lemma pw2_less_imp: "pw2 a < pw2 b \<Longrightarrow> a < b"
  using pw2_mono [of b a] by (cases "a < b") simp_all

lemma pw2_Suc: "pw2 (e + 1) = 2 * pw2 e"
  using pw2_add [of e 1] by (simp add: pw2_def)

lemma pw2_pred: "pw2 (e - 1) = pw2 e / 2"
  using pw2_diff [of e 1] by (simp add: pw2_def)

lemma pw2_split53: "pw2 (e + 1) = pw2 53 * pw2 (e - 52)"
proof -
  have "e + 1 = 53 + (e - 52)" by simp
  then have "pw2 (e + 1) = pw2 (53 + (e - 52))" by (rule arg_cong)
  then show ?thesis by (simp only: pw2_add)
qed

lemma pw2_split52: "pw2 e = pw2 52 * pw2 (e - 52)"
proof -
  have "e = 52 + (e - 52)" by simp
  then have "pw2 e = pw2 (52 + (e - 52))" by (rule arg_cong)
  then show ?thesis by (simp only: pw2_add)
qed

lemma abs_less_expo: "\<bar>x\<bar> < pw2 (expo x + 1)"
proof (cases "\<bar>x\<bar> < pw2 (- 1022)")
  case True
  moreover have "pw2 (- 1022) \<le> pw2 (- 1022 + 1)" by (rule pw2_mono) simp
  ultimately show ?thesis by (simp add: expo_def)
next
  case False
  then show ?thesis using expo_normal [of x] by simp
qed

lemma expo_le:
  assumes "\<bar>x\<bar> < pw2 (e + 1)" and "- 1022 \<le> e"
  shows "expo x \<le> e"
proof (cases "\<bar>x\<bar> < pw2 (- 1022)")
  case True
  then show ?thesis using assms(2) by (simp add: expo_def)
next
  case False
  then have "pw2 (expo x) \<le> \<bar>x\<bar>" using expo_normal [of x] by simp
  then have "pw2 (expo x) < pw2 (e + 1)" using assms(1) by linarith
  then show ?thesis using pw2_less_imp by fastforce
qed

lemma expo_mono:
  assumes "\<bar>x\<bar> \<le> \<bar>y\<bar>"
  shows "expo x \<le> expo y"
proof -
  have "\<bar>x\<bar> < pw2 (expo y + 1)" using abs_less_expo [of y] assms by linarith
  then show ?thesis using expo_ge [of y] by (rule expo_le)
qed

lemma fl_nonneg: "0 \<le> x \<Longrightarrow> 0 \<le> fl x"
proof -
  assume "0 \<le> x"
  then have "0 \<le> x / pw2 (expo x - 52)" by simp
  then have "rne 0 \<le> rne (x / pw2 (expo x - 52))" by (rule rne_mono)
  then show ?thesis by (simp add: fl_def)
qed

lemma fl_upper:
  assumes "0 \<le> x"
  shows "fl x \<le> pw2 (expo x + 1)"
proof -
  let ?u = "pw2 (expo x - 52)"
  have "x < pw2 (expo x + 1)" using abs_less_expo [of x] assms by simp
  moreover have "pw2 (expo x + 1) = pw2 53 * ?u"
    by (rule pw2_split53)
  ultimately have "x / ?u \<le> pw2 53" by (simp add: field_simps)
  then have "rne (x / ?u) \<le> rne (pw2 53)" by (rule rne_mono)
  also have "pw2 53 = of_int (2 ^ nat 53)" by (rule pw2_nat) simp
  finally have "rne (x / ?u) \<le> 2 ^ nat 53" by (simp only: rne_of_int)
  then have "real_of_int (rne (x / ?u)) \<le> of_int (2 ^ nat 53)" by (simp only: of_int_le_iff)
  also have "of_int (2 ^ nat 53) = pw2 53" by (rule pw2_nat [symmetric]) simp
  finally have "?u * real_of_int (rne (x / ?u)) \<le> ?u * pw2 53" by simp
  also have "\<dots> = pw2 (expo x + 1)" by (simp add: pw2_split53 [of "expo x"])
  finally show ?thesis by (simp add: fl_def)
qed

lemma fl_lower:
  assumes "pw2 (- 1022) \<le> x"
  shows "pw2 (expo x) \<le> fl x"
proof -
  let ?u = "pw2 (expo x - 52)"
  have p: "0 \<le> x" using assms pw2_pos [of "- 1022"] by linarith
  then have "pw2 (expo x) \<le> x" using expo_normal [of x] assms by simp
  moreover have "pw2 (expo x) = pw2 52 * ?u"
    by (rule pw2_split52)
  ultimately have "pw2 52 \<le> x / ?u" by (simp add: field_simps)
  then have "rne (pw2 52) \<le> rne (x / ?u)" by (rule rne_mono)
  moreover have e: "pw2 52 = of_int (2 ^ nat 52)" by (rule pw2_nat) simp
  ultimately have "2 ^ nat 52 \<le> rne (x / ?u)" by (simp only: rne_of_int)
  then have "of_int (2 ^ nat 52) \<le> real_of_int (rne (x / ?u))" by (simp only: of_int_le_iff)
  then have "pw2 52 \<le> real_of_int (rne (x / ?u))" by (simp only: e)
  then have "?u * pw2 52 \<le> ?u * real_of_int (rne (x / ?u))" by simp
  moreover have "?u * pw2 52 = pw2 (expo x)" by (simp add: pw2_split52 [of "expo x"])
  ultimately show ?thesis by (simp add: fl_def)
qed

lemma fl_mono_nonneg:
  assumes "0 \<le> x" and "x \<le> y"
  shows "fl x \<le> fl y"
proof -
  have le: "expo x \<le> expo y" using assms by (intro expo_mono) simp
  show ?thesis
  proof (cases "expo x = expo y")
    case True
    have "x / pw2 (expo y - 52) \<le> y / pw2 (expo y - 52)"
      using assms(2) by (simp add: divide_right_mono)
    then have "rne (x / pw2 (expo y - 52)) \<le> rne (y / pw2 (expo y - 52))" by (rule rne_mono)
    then show ?thesis by (simp add: fl_def True)
  next
    case False
    then have lt: "expo x + 1 \<le> expo y" using le by simp
    have "- 1022 < expo y" using expo_ge [of x] lt by linarith
    then have "\<not> \<bar>y\<bar> < pw2 (- 1022)" by (auto simp: expo_def)
    then have "pw2 (- 1022) \<le> y" using assms by simp
    then have "pw2 (expo y) \<le> fl y" by (rule fl_lower)
    moreover have "fl x \<le> pw2 (expo x + 1)" using assms(1) by (rule fl_upper)
    moreover have "pw2 (expo x + 1) \<le> pw2 (expo y)" using lt by (rule pw2_mono)
    ultimately show ?thesis by linarith
  qed
qed

lemma fl_mono:
  assumes "x \<le> y"
  shows "fl x \<le> fl y"
proof (cases "0 \<le> x")
  case True
  then show ?thesis using assms by (rule fl_mono_nonneg)
next
  case x: False
  show ?thesis
  proof (cases "y \<le> 0")
    case True
    then have "fl (- y) \<le> fl (- x)" using assms by (intro fl_mono_nonneg) simp_all
    then show ?thesis by (simp add: fl_minus)
  next
    case False
    then have "0 \<le> fl y" by (intro fl_nonneg) simp
    moreover have "0 \<le> fl (- x)" using x by (intro fl_nonneg) simp
    ultimately show ?thesis by (simp add: fl_minus)
  qed
qed

lemma fl_repr:
  assumes "x = of_int m * pw2 q" and "\<bar>m\<bar> < 2 ^ 53" and "- 1074 \<le> q"
  shows "fl x = x"
proof -
  define e where "e = expo x"
  define u where "u = pw2 (e - 52)"
  have u0: "u \<noteq> 0" by (simp add: u_def)
  have "\<bar>x\<bar> = of_int \<bar>m\<bar> * pw2 q" using assms(1) by (simp add: abs_mult)
  also have "\<dots> < of_int (2 ^ 53) * pw2 q"
    using assms(2) by (intro mult_strict_right_mono) (simp_all only: of_int_less_iff pw2_pos)
  also have "of_int (2 ^ 53) = pw2 53" using pw2_nat [of 53] by simp
  finally have "\<bar>x\<bar> < pw2 (q + 52 + 1)" by (simp add: pw2_add mult.commute)
  then have "e \<le> q + 52" unfolding e_def using assms(3) by (intro expo_le) simp_all
  then obtain k :: nat where k: "q - (e - 52) = int k"
    by (metis diff_ge_0_iff_ge diff_diff_eq2 add.commute zero_le_imp_eq_int)
  have "q = (e - 52) + int k" using k by simp
  then have "pw2 q = pw2 ((e - 52) + int k)" by (rule arg_cong)
  then have "pw2 q = u * pw2 (int k)"
    by (simp only: pw2_add u_def)
  also have "pw2 (int k) = of_int (2 ^ k)" using pw2_nat [of "int k"] by simp
  finally have q: "pw2 q = u * of_int (2 ^ k)" .
  have x: "x = u * of_int (m * 2 ^ k)" by (simp add: assms(1) q)
  then have "x / u = of_int (m * 2 ^ k)" using u0 by simp
  then have "rne (x / u) = m * 2 ^ k" by (simp only: rne_of_int)
  then have "fl x = u * of_int (m * 2 ^ k)" by (simp add: fl_def u_def e_def)
  then show ?thesis using x by simp
qed

lemma rne_bound:
  assumes "\<bar>y\<bar> \<le> of_int n"
  shows "\<bar>rne y\<bar> \<le> n"
proof -
  have "rne y \<le> rne (of_int n)" using assms by (intro rne_mono) linarith
  moreover have "rne (of_int (- n)) \<le> rne y" using assms by (intro rne_mono) simp
  ultimately show ?thesis by (simp only: rne_of_int abs_le_iff) simp
qed

lemma fl_idem [simp]: "fl (fl x) = fl x"
proof -
  let ?e = "expo x"
  let ?u = "pw2 (?e - 52)"
  let ?k = "rne (x / ?u)"
  have f: "fl x = of_int ?k * ?u" by (simp add: fl_def)
  have "\<bar>x\<bar> < pw2 (?e + 1)" by (rule abs_less_expo)
  moreover have "pw2 (?e + 1) = pw2 53 * ?u" by (rule pw2_split53)
  ultimately have "\<bar>x / ?u\<bar> \<le> pw2 53" by (simp add: field_simps)
  also have "pw2 53 = of_int (2 ^ 53)" using pw2_nat [of 53] by simp
  finally have b: "\<bar>?k\<bar> \<le> 2 ^ 53" by (rule rne_bound)
  show ?thesis
  proof (cases "\<bar>?k\<bar> < 2 ^ 53")
    case True
    have "- 1074 \<le> ?e - 52" using expo_ge [of x] by simp
    with f True show ?thesis by (rule fl_repr)
  next
    case False
    then have "\<bar>?k\<bar> = 2 ^ 53" using b by simp
    then consider "?k = 2 ^ 53" | "?k = - (2 ^ 53)" by linarith
    then show ?thesis
    proof cases
      case 1
      have "fl x = of_int 1 * pw2 (?e + 1)"
        unfolding f 1 using pw2_nat [of 53] by (simp add: pw2_split53 [of ?e])
      moreover have "\<bar>1::int\<bar> < 2 ^ 53" by simp
      moreover have "- 1074 \<le> ?e + 1" using expo_ge [of x] by simp
      ultimately show ?thesis by (rule fl_repr)
    next
      case 2
      have "fl x = of_int (- 1) * pw2 (?e + 1)"
        unfolding f 2 using pw2_nat [of 53] by (simp add: pw2_split53 [of ?e])
      moreover have "\<bar>- 1::int\<bar> < 2 ^ 53" by simp
      moreover have "- 1074 \<le> ?e + 1" using expo_ge [of x] by simp
      ultimately show ?thesis by (rule fl_repr)
    qed
  qed
qed

lemma fl_abs_err:
  assumes "\<bar>x\<bar> < pw2 (e + 1)" and "- 1022 \<le> e"
  shows "\<bar>fl x - x\<bar> \<le> pw2 (e - 53)"
proof -
  let ?u = "pw2 (expo x - 52)"
  have "expo x \<le> e" using assms by (rule expo_le)
  then have u: "?u \<le> pw2 (e - 52)" by (intro pw2_mono) simp
  have "fl x - x = ?u * (of_int (rne (x / ?u)) - x / ?u)"
    by (simp add: fl_def algebra_simps)
  then have "\<bar>fl x - x\<bar> = ?u * \<bar>of_int (rne (x / ?u)) - x / ?u\<bar>"
    by (simp add: abs_mult)
  also have "\<dots> \<le> ?u * (1 / 2)"
    using rne_err [of "x / ?u"] by (intro mult_left_mono) simp_all
  also have "\<dots> \<le> pw2 (e - 52) * (1 / 2)" using u by simp
  also have "\<dots> = pw2 (e - 53)" using pw2_pred [of "e - 52"] by simp
  finally show ?thesis .
qed

lemma pw2_1023_less: "pw2 1023 < pw2 1024"
  using pw2_Suc [of 1023] pw2_pos [of 1023] by simp

lemma fl_pw2: "- 1074 \<le> q \<Longrightarrow> fl (pw2 q) = pw2 q"
  using fl_repr [of "pw2 q" 1 q] by simp

lemma fl_int: "\<bar>m\<bar> < 2 ^ 53 \<Longrightarrow> fl (of_int m) = of_int m"
  using fl_repr [of "of_int m" m 0] by (simp add: pw2_def)

lemma fl_1 [simp]: "fl 1 = 1"
  using fl_int [of 1] by simp

lemma fl_numeral: "numeral n < (2::int) ^ 53 \<Longrightarrow> fl (numeral n) = numeral n"
  using fl_int [of "numeral n"] by simp

lemma fl_neg_numeral: "numeral n < (2::int) ^ 53 \<Longrightarrow> fl (- numeral n) = - numeral n"
  by (simp add: fl_minus fl_numeral)

lemma fl_grid:
  assumes "x = of_int m / 2 ^ 44" and "\<bar>x\<bar> < 512"
  shows "fl x = x"
proof -
  have p: "pw2 (- 44) = 1 / 2 ^ 44" by (simp add: pw2_def power_int_minus_divide)
  have x: "x = of_int m * pw2 (- 44)" unfolding p assms(1) by simp
  have "\<bar>real_of_int m\<bar> = \<bar>x\<bar> * 2 ^ 44" using assms(1) by simp
  also have "\<dots> < 512 * 2 ^ 44" using assms(2) by simp
  finally have "real_of_int \<bar>m\<bar> < real_of_int (2 ^ 53)" by simp
  then have "\<bar>m\<bar> < 2 ^ 53" by (simp only: of_int_less_iff)
  with x show ?thesis by (rule fl_repr) simp
qed

lemma pw2_9: "pw2 9 = 512"
  by (simp add: pw2_def)

lemma le_pw2_1023: "x \<le> 512 \<Longrightarrow> x \<le> pw2 1023"
  using pw2_mono [of 9 1023] by (simp add: pw2_9)

section \<open>Number values\<close>

lemma rnd_cases:
  "rnd x = PInf \<or> rnd x = NInf \<or> (rnd x = Num (fl x) \<and> \<bar>fl x\<bar> < pw2 1024)"
  by (auto simp: rnd_def)

lemma rnd_nonneg:
  assumes "0 \<le> x"
  shows "rnd x = PInf \<or> (rnd x = Num (fl x) \<and> 0 \<le> fl x \<and> fl x < pw2 1024)"
proof -
  have "0 \<le> fl x" using assms by (rule fl_nonneg)
  moreover have "0 < pw2 1024" by simp
  ultimately show ?thesis by (auto simp: rnd_def)
qed

lemma rnd_dbl: "fl e = e \<Longrightarrow> \<bar>e\<bar> < pw2 1024 \<Longrightarrow> rnd e = Num e"
  by (auto simp: rnd_def)

lemma rnd_small:
  assumes "\<bar>x\<bar> \<le> pw2 1023"
  shows "rnd x = Num (fl x)"
proof -
  have "fl x \<le> fl (pw2 1023)" using assms by (intro fl_mono) simp
  moreover have "fl (- pw2 1023) \<le> fl x" using assms by (intro fl_mono) simp
  ultimately have "\<bar>fl x\<bar> \<le> pw2 1023" by (simp add: fl_minus fl_pw2)
  then have "\<bar>fl x\<bar> < pw2 1024" using pw2_1023_less by linarith
  then show ?thesis by (auto simp: rnd_def)
qed

lemma rnd_0 [simp]: "rnd 0 = Num 0"
  by (simp add: rnd_def not_le)

lemma rnd_eval:
  assumes "pw2 e \<le> \<bar>x\<bar>" and "\<bar>x\<bar> < pw2 (e + 1)" and "- 1022 \<le> e" and "e \<le> 1022"
  shows "rnd x = Num (pw2 (e - 52) * of_int (rne (x / pw2 (e - 52))))"
proof -
  have "pw2 (e + 1) \<le> pw2 1023" using assms(4) by (intro pw2_mono) simp
  then have "\<bar>x\<bar> \<le> pw2 1023" using assms(2) by linarith
  then have "rnd x = Num (fl x)" by (rule rnd_small)
  then show ?thesis using fl_eval [OF assms(1,2,3)] by simp
qed

text \<open>
  The instances of \<open>rnd_eval\<close> that evaluate the operations on the concrete inputs
  below: the simplifier picks the one whose exponent fits.
\<close>

lemmas rnd_evals =
  rnd_eval [where e = "- 6"] rnd_eval [where e = "- 5"] rnd_eval [where e = "- 4"]
  rnd_eval [where e = "- 3"] rnd_eval [where e = "- 2"] rnd_eval [where e = "- 1"]
  rnd_eval [where e = "0"] rnd_eval [where e = "1"] rnd_eval [where e = "2"]
  rnd_eval [where e = "3"] rnd_eval [where e = "4"] rnd_eval [where e = "5"]

lemma jdiv_Num_range:
  assumes "jdiv x (Num b) = Num e"
  shows "\<bar>e\<bar> < pw2 1024"
proof (cases x)
  case (Num a)
  then show ?thesis
    using assms rnd_cases [of "a / b"] by (auto simp: inf_sgn_def split: if_splits)
qed (use assms in \<open>auto simp: inf_sgn_def split: if_splits\<close>)

lemma jgt_irrefl: "\<not> jgt x x"
  by (cases x) simp_all

section \<open>The beat detector\<close>

lemma detectBeat_history:
  "beatHistory (snd (detectBeat now data st))
     = pushHistory (beatHistory st) (averageRange data 0 10)"
  by (simp add: detectBeat_def Let_def)

lemma pushHistory_eq:
  "pushHistory h e = (if length h < 8 then h @ [e] else tl h @ [e])"
  by (cases h) (auto simp: pushHistory_def Let_def)

lemma jgt_jmul_Num:
  assumes "\<bar>e\<bar> < pw2 1024"
  shows "jgt (Num e) (jmul (Num a) (Num c)) = (fl (a * c) < e)"
  using assms by (auto simp: rnd_def)

lemma normalizedData_replicate:
  "normalizedData (replicate n b) = replicate n (jdiv (Num (real (unat b))) (Num 255))"
  by (simp add: normalizedData_def)

lemma slice_replicate:
  "slice (replicate n x) start end' = replicate (min (end' - start) (n - start)) x"
  by (simp add: slice_def min.commute)

lemma byte5: "jdiv (Num 5) (Num 255) = Num (1412894000743685 / 72057594037927936)"
  by (simp add: rnd_evals rne_def pw2_def)

lemma byte15: "jdiv (Num 15) (Num 255) = Num (4238682002231055 / 72057594037927936)"
  by (simp add: rnd_evals rne_def pw2_def)

lemma energy5:
  "averageRange (normalizedData (replicate 256 5)) 0 10
     = Num (5651576002974739 / 288230376151711744)"
  by (simp add: averageRange_def normalizedData_replicate slice_replicate byte5)
     (simp add: mean_def jsum_def eval_nat_numeral rnd_evals rne_def pw2_def)

lemma energy15:
  "averageRange (normalizedData (replicate 256 15)) 0 10
     = Num (8477364004462111 / 144115188075855872)"
  by (simp add: averageRange_def normalizedData_replicate slice_replicate byte15)
     (simp add: mean_def jsum_def eval_nat_numeral rnd_evals rne_def pw2_def)

text \<open>
  C1. A call of the beat detector computes \<open>currentEnergy\<close>, the sum of bins 0..10 of the
  normalized snapshot divided by their number, appends it to \<open>beatHistory\<close>, drops the
  oldest entry when the history then has more than 8, and computes \<open>averageEnergy\<close>, the
  sum of that history divided by its length. It returns true exactly when
  \<open>currentEnergy > averageEnergy * 1.5\<close> and \<open>now - lastBeatTime > 250\<close>; for finite
  energies \<open>e\<close> and \<open>a\<close> the first condition is \<open>fl (a * 1.5) < e\<close>. It sets
  \<open>lastBeatTime\<close> to \<open>now\<close> when it returns true and leaves it unchanged otherwise.
\<close>

theorem detectBeat_iff:
  "(let currentEnergy = jdiv (foldl jadd (Num 0) (take 11 data))
                             (Num (real (length (take 11 data))));
        history = (if length (beatHistory st) < 8 then beatHistory st @ [currentEnergy]
                   else tl (beatHistory st) @ [currentEnergy]);
        averageEnergy = jdiv (foldl jadd (Num 0) history) (Num (real (length history)))
    in fst (detectBeat now data st)
         = (jgt currentEnergy (jmul averageEnergy (Num 1.5)) \<and> now - lastBeatTime st > 250)
     \<and> (\<forall>e a. currentEnergy = Num e \<longrightarrow> averageEnergy = Num a \<longrightarrow>
           fst (detectBeat now data st) = (fl (a * 1.5) < e \<and> now - lastBeatTime st > 250))
     \<and> lastBeatTime (snd (detectBeat now data st))
         = (if fst (detectBeat now data st) then now else lastBeatTime st)
     \<and> beatHistory (snd (detectBeat now data st)) = history)"
proof -
  define currentEnergy where
    "currentEnergy = jdiv (foldl jadd (Num 0) (take 11 data)) (Num (real (length (take 11 data))))"
  define history where
    "history = (if length (beatHistory st) < 8 then beatHistory st @ [currentEnergy]
                else tl (beatHistory st) @ [currentEnergy])"
  define averageEnergy where
    "averageEnergy = jdiv (foldl jadd (Num 0) history) (Num (real (length history)))"
  have c: "averageRange data 0 10 = currentEnergy"
    by (simp add: averageRange_def slice_def mean_def jsum_def currentEnergy_def)
  have h: "pushHistory (beatHistory st) currentEnergy = history"
    by (simp add: pushHistory_eq history_def)
  have a: "mean history = averageEnergy"
    by (simp add: mean_def jsum_def averageEnergy_def)
  have b: "fst (detectBeat now data st)
      = (jgt currentEnergy (jmul averageEnergy (Num 1.5)) \<and> now - lastBeatTime st > 250)"
    by (simp add: detectBeat_def Let_def c h a)
  have f: "\<forall>e a. currentEnergy = Num e \<longrightarrow> averageEnergy = Num a \<longrightarrow>
      fst (detectBeat now data st) = (fl (a * 1.5) < e \<and> now - lastBeatTime st > 250)"
  proof (intro allI impI)
    fix e a
    assume e: "currentEnergy = Num e" and "averageEnergy = Num a"
    moreover have "\<bar>e\<bar> < pw2 1024" using e unfolding currentEnergy_def by (rule jdiv_Num_range)
    ultimately show "fst (detectBeat now data st)
        = (fl (a * 1.5) < e \<and> now - lastBeatTime st > 250)"
      unfolding b using jgt_jmul_Num [of e a "1.5"] by simp
  qed
  have l: "lastBeatTime (snd (detectBeat now data st))
      = (if fst (detectBeat now data st) then now else lastBeatTime st)"
    by (simp add: detectBeat_def Let_def)
  have g: "beatHistory (snd (detectBeat now data st)) = history"
    by (simp add: detectBeat_history c h)
  from b f l g show ?thesis
    unfolding Let_def currentEnergy_def [symmetric] history_def [symmetric]
      averageEnergy_def [symmetric]
    by (intro conjI)
qed

text \<open>
  The theorem at two calls, on 256 bins of 5 at time 1000 and then 256 bins of 15 at time
  2000. In exact arithmetic the second energy would be exactly 1.5 times the average; the
  rounded energies differ in the last bit, and the second call reports a beat.
\<close>

theorem detectBeat_iff_witness:
  "fst (detectBeat 2000 (normalizedData (replicate 256 15))
         (snd (detectBeat 1000 (normalizedData (replicate 256 5)) initialBeatState)))
   \<and> lastBeatTime (snd (detectBeat 2000 (normalizedData (replicate 256 15))
         (snd (detectBeat 1000 (normalizedData (replicate 256 5)) initialBeatState)))) = 2000"
proof -
  define d5 where "d5 = normalizedData (replicate 256 5)"
  define d15 where "d15 = normalizedData (replicate 256 15)"
  define st1 where "st1 = snd (detectBeat 1000 d5 initialBeatState)"
  have e5: "averageRange d5 0 10 = Num (5651576002974739 / 288230376151711744)"
    unfolding d5_def by (rule energy5)
  have st1: "st1 = \<lparr>lastBeatTime = 0,
      beatHistory = [Num (5651576002974739 / 288230376151711744)]\<rparr>"
    unfolding st1_def
    by (simp add: detectBeat_def Let_def e5 initialBeatState_def pushHistory_def)
       (simp add: mean_def jsum_def rnd_evals rne_def pw2_def)
  have "averageRange d15 0 10 = Num (8477364004462111 / 144115188075855872)"
    unfolding d15_def by (rule energy15)
  then have cur: "jdiv (foldl jadd (Num 0) (take 11 d15)) (Num (real (length (take 11 d15))))
      = Num (8477364004462111 / 144115188075855872)"
    by (simp add: averageRange_def slice_def mean_def jsum_def)
  have avg: "jdiv (foldl jadd (Num 0) [Num (5651576002974739 / 288230376151711744),
                                        Num (8477364004462111 / 144115188075855872)])
                  (Num (real (length [Num (5651576002974739 / 288230376151711744),
                                      Num (8477364004462111 / 144115188075855872)])))
      = Num (1412894000743685 / 36028797018963968)"
    by (simp add: rnd_evals rne_def pw2_def)
  have t: "fl (1412894000743685 / 36028797018963968 * 1.5)
      = 4238682002231055 / 72057594037927936"
    by (subst fl_eval [where e = "- 5"]) (simp_all add: rne_def pw2_def)
  note inst = detectBeat_iff [of d15 st1 2000, unfolded Let_def cur, unfolded st1]
  have h: "(if length (beatHistory \<lparr>lastBeatTime = 0,
                 beatHistory = [Num (5651576002974739 / 288230376151711744)]\<rparr>) < 8
            then beatHistory \<lparr>lastBeatTime = 0,
                 beatHistory = [Num (5651576002974739 / 288230376151711744)]\<rparr>
                 @ [Num (8477364004462111 / 144115188075855872)]
            else tl (beatHistory \<lparr>lastBeatTime = 0,
                 beatHistory = [Num (5651576002974739 / 288230376151711744)]\<rparr>)
                 @ [Num (8477364004462111 / 144115188075855872)])
      = [Num (5651576002974739 / 288230376151711744),
         Num (8477364004462111 / 144115188075855872)]"
    by simp
  note inst' = inst [unfolded h avg]
  from inst' have f: "fst (detectBeat 2000 d15 \<lparr>lastBeatTime = 0,
      beatHistory = [Num (5651576002974739 / 288230376151711744)]\<rparr>)
    = (fl (1412894000743685 / 36028797018963968 * 1.5) < 8477364004462111 / 144115188075855872
       \<and> 2000 - lastBeatTime \<lparr>lastBeatTime = 0,
            beatHistory = [Num (5651576002974739 / 288230376151711744)]\<rparr> > 250)"
    by blast
  have b: "fst (detectBeat 2000 d15 st1)"
    unfolding st1 f t by simp
  from inst' have "lastBeatTime (snd (detectBeat 2000 d15 \<lparr>lastBeatTime = 0,
      beatHistory = [Num (5651576002974739 / 288230376151711744)]\<rparr>))
    = (if fst (detectBeat 2000 d15 \<lparr>lastBeatTime = 0,
      beatHistory = [Num (5651576002974739 / 288230376151711744)]\<rparr>) then 2000
       else lastBeatTime \<lparr>lastBeatTime = 0,
      beatHistory = [Num (5651576002974739 / 288230376151711744)]\<rparr>)"
    by blast
  then have l: "lastBeatTime (snd (detectBeat 2000 d15 st1)) = 2000"
    using b unfolding st1 by simp
  from b l show ?thesis unfolding st1_def d5_def d15_def by (intro conjI)
qed

subsection \<open>The bounded history\<close>

lemma length_detectBeats: "length (detectBeats cs st) = length cs"
  by (induction cs arbitrary: st) simp_all

lemma nth_Cons_snd: "snd a = snd b \<Longrightarrow> snd ((a # xs) ! k) = snd ((b # xs) ! k)"
  by (cases k) simp_all

lemma pushHistory_fifo:
  "length h \<le> 8 \<Longrightarrow>
   pushHistory h e = (if length h < 8 then h @ [e] else tl h @ [e])"
  by (cases h) (auto simp: pushHistory_def Let_def)

lemma pushHistory_length: "length h \<le> 8 \<Longrightarrow> length (pushHistory h e) \<le> 8"
  by (auto simp: pushHistory_def Let_def)

lemma detectBeat_bounded:
  "length (beatHistory st) \<le> 8 \<Longrightarrow> length (beatHistory (snd (detectBeat now data st))) \<le> 8"
  by (simp add: detectBeat_history pushHistory_length)

text \<open>
  C3. Along every run of the detector that starts with at most 8 entries in
  \<open>beatHistory\<close> (at process start it is empty), the history left by every call has at
  most 8 entries. Each call appends the current energy to the history it found and, when
  that history already held 8 entries, drops its oldest entry.
\<close>

theorem beatHistory_bounded:
  assumes "length (beatHistory st) \<le> 8"
  shows "\<forall>i<length cs.
      length (beatHistory (snd (detectBeats cs st ! i))) \<le> 8
    \<and> beatHistory (snd (detectBeats cs st ! i)) =
        (let before = beatHistory (snd (((False, st) # detectBeats cs st) ! i));
             currentEnergy = averageRange (snd (cs ! i)) 0 10
         in if length before < 8 then before @ [currentEnergy]
            else tl before @ [currentEnergy])"
  using assms
proof (induction cs arbitrary: st)
  case Nil
  then show ?case by simp
next
  case (Cons c cs)
  let ?st' = "snd (detectBeat (fst c) (snd c) st)"
  have b: "length (beatHistory ?st') \<le> 8"
    using Cons.prems by (rule detectBeat_bounded)
  show ?case
  proof (intro allI impI)
    fix i
    assume i: "i < length (c # cs)"
    show "length (beatHistory (snd (detectBeats (c # cs) st ! i))) \<le> 8
    \<and> beatHistory (snd (detectBeats (c # cs) st ! i)) =
        (let before = beatHistory (snd (((False, st) # detectBeats (c # cs) st) ! i));
             currentEnergy = averageRange (snd ((c # cs) ! i)) 0 10
         in if length before < 8 then before @ [currentEnergy]
            else tl before @ [currentEnergy])"
    proof (cases i)
      case 0
      then show ?thesis
        using Cons.prems b by (simp add: detectBeat_history pushHistory_fifo Let_def)
    next
      case (Suc k)
      then have k: "k < length cs" using i by simp
      have eq: "snd (((False, ?st') # detectBeats cs ?st') ! k)
          = snd ((detectBeat (fst c) (snd c) st # detectBeats cs ?st') ! k)"
        by (rule nth_Cons_snd) simp
      from Cons.IH [OF b, rule_format, OF k]
      have ih1: "length (beatHistory (snd (detectBeats cs ?st' ! k))) \<le> 8"
        and ih2: "beatHistory (snd (detectBeats cs ?st' ! k)) =
          (let before = beatHistory (snd (((False, ?st') # detectBeats cs ?st') ! k));
               currentEnergy = averageRange (snd (cs ! k)) 0 10
           in if length before < 8 then before @ [currentEnergy]
              else tl before @ [currentEnergy])"
        by blast+
      have g1: "length (beatHistory (snd (detectBeats (c # cs) st ! i))) \<le> 8"
        using ih1 Suc by simp
      have g2: "beatHistory (snd (detectBeats (c # cs) st ! i)) =
          (let before = beatHistory (snd (((False, st) # detectBeats (c # cs) st) ! i));
               currentEnergy = averageRange (snd ((c # cs) ! i)) 0 10
           in if length before < 8 then before @ [currentEnergy]
              else tl before @ [currentEnergy])"
        using ih2 Suc by (simp add: Let_def eq)
      from g1 g2 show ?thesis by blast
    qed
  qed
qed

theorem beatHistory_bounded_witness:
  "length (beatHistory initialBeatState) \<le> 8
   \<and> (9::nat) < length (replicate 10 (0::int, [Num 1]))
   \<and> length (beatHistory (snd (detectBeats (replicate 10 (0, [Num 1])) initialBeatState ! 9))) \<le> 8
   \<and> beatHistory (snd (detectBeats (replicate 10 (0, [Num 1])) initialBeatState ! 9)) =
        (let before = beatHistory (snd (((False, initialBeatState)
                         # detectBeats (replicate 10 (0, [Num 1])) initialBeatState) ! 9));
             currentEnergy = averageRange (snd (replicate 10 (0::int, [Num 1]) ! 9)) 0 10
         in if length before < 8 then before @ [currentEnergy]
            else tl before @ [currentEnergy])"
proof -
  have h: "length (beatHistory initialBeatState) \<le> 8"
    by (simp add: initialBeatState_def)
  have i: "(9::nat) < length (replicate 10 (0::int, [Num 1]))"
    by simp
  from beatHistory_bounded [OF h, rule_format, OF i] h i show ?thesis
    by blast
qed

subsection \<open>Debounce\<close>

lemma detectBeat_last_cases:
  "lastBeatTime (snd (detectBeat now data st)) = lastBeatTime st
   \<or> lastBeatTime (snd (detectBeat now data st)) = now"
  by (simp add: detectBeat_def Let_def)

lemma detectBeat_true:
  "fst (detectBeat now data st) \<Longrightarrow>
   lastBeatTime (snd (detectBeat now data st)) = now \<and> now - lastBeatTime st > 250"
  by (simp add: detectBeat_def Let_def split: if_splits)

lemma beat_after_bound:
  "\<forall>c \<in> set cs. t \<le> fst c \<Longrightarrow> t \<le> lastBeatTime st \<Longrightarrow> j < length cs \<Longrightarrow>
   fst (detectBeats cs st ! j) \<Longrightarrow> fst (cs ! j) - t > 250"
proof (induction cs arbitrary: st j)
  case Nil
  then show ?case by simp
next
  case (Cons c cs)
  show ?case
  proof (cases j)
    case 0
    with Cons.prems have "fst (detectBeat (fst c) (snd c) st)" by simp
    from detectBeat_true [OF this] Cons.prems(2) 0 show ?thesis by simp
  next
    case (Suc k)
    let ?st' = "snd (detectBeat (fst c) (snd c) st)"
    have "\<forall>c \<in> set cs. t \<le> fst c" using Cons.prems(1) by simp
    moreover have "t \<le> lastBeatTime ?st'"
      using detectBeat_last_cases [of "fst c" "snd c" st] Cons.prems(1,2) by auto
    moreover have "k < length cs" using Cons.prems(3) Suc by simp
    moreover have "fst (detectBeats cs ?st' ! k)" using Cons.prems(4) Suc by simp
    ultimately have "fst (cs ! k) - t > 250" by (rule Cons.IH)
    then show ?thesis using Suc by simp
  qed
qed

text \<open>
  C4. In a run of the detector with non-decreasing timestamps, two calls that both return
  true are more than 250 ms apart, whatever the snapshots are: no two calls at most 250 ms
  apart both report a beat.
\<close>

theorem beats_debounced:
  assumes "sorted (map fst cs)" and "i < j" and "j < length cs"
    and "fst (detectBeats cs st ! i)" and "fst (detectBeats cs st ! j)"
  shows "fst (cs ! j) - fst (cs ! i) > 250"
  using assms
proof (induction cs arbitrary: st i j)
  case Nil
  then show ?case by simp
next
  case (Cons c cs)
  let ?st' = "snd (detectBeat (fst c) (snd c) st)"
  obtain k where j: "j = Suc k" using Cons.prems(2) by (cases j) auto
  then have k: "k < length cs" using Cons.prems(3) by simp
  have bj: "fst (detectBeats cs ?st' ! k)" using Cons.prems(5) j by simp
  show ?case
  proof (cases i)
    case 0
    with Cons.prems(4) have "fst (detectBeat (fst c) (snd c) st)" by simp
    then have "lastBeatTime ?st' = fst c" using detectBeat_true by blast
    moreover have "\<forall>d \<in> set cs. fst c \<le> fst d" using Cons.prems(1) by auto
    ultimately have "fst (cs ! k) - fst c > 250"
      using beat_after_bound [of cs "fst c" ?st' k] k bj by simp
    then show ?thesis using 0 j by simp
  next
    case (Suc l)
    have "sorted (map fst cs)" using Cons.prems(1) by simp
    moreover have "l < k" using Cons.prems(2) Suc j by simp
    moreover have "fst (detectBeats cs ?st' ! l)" using Cons.prems(4) Suc by simp
    ultimately have "fst (cs ! k) - fst (cs ! l) > 250"
      using Cons.IH [of l k ?st'] k bj by blast
    then show ?thesis using Suc j by simp
  qed
qed

theorem beats_debounced_witness:
  "sorted (map fst [(1000::int, [Num 0]), (2000, [Num 0.2]), (3000, [Num 0.8])])
   \<and> (1::nat) < 2
   \<and> (2::nat) < length [(1000::int, [Num 0]), (2000, [Num 0.2]), (3000, [Num 0.8])]
   \<and> fst (detectBeats [(1000, [Num 0]), (2000, [Num 0.2]), (3000, [Num 0.8])]
             initialBeatState ! 1)
   \<and> fst (detectBeats [(1000, [Num 0]), (2000, [Num 0.2]), (3000, [Num 0.8])]
             initialBeatState ! 2)
   \<and> fst ([(1000::int, [Num 0]), (2000, [Num 0.2]), (3000, [Num 0.8])] ! 2)
       - fst ([(1000::int, [Num 0]), (2000, [Num 0.2]), (3000, [Num 0.8])] ! 1) > 250"
proof -
  let ?cs = "[(1000::int, [Num 0]), (2000, [Num 0.2]), (3000, [Num 0.8])]"
  have s: "sorted (map fst ?cs)" by simp
  have ij: "(1::nat) < 2" by simp
  have l: "(2::nat) < length ?cs" by simp
  have b1: "fst (detectBeats ?cs initialBeatState ! 1)"
    by (simp add: initialBeatState_def detectBeat_def averageRange_def slice_def
        mean_def jsum_def pushHistory_def Let_def rnd_evals rne_def pw2_def)
  have b2: "fst (detectBeats ?cs initialBeatState ! 2)"
    by (simp add: initialBeatState_def detectBeat_def averageRange_def slice_def
        mean_def jsum_def pushHistory_def Let_def rnd_evals rne_def pw2_def)
  from beats_debounced [OF s ij l b1 b2] s ij l b1 b2 show ?thesis
    by (intro conjI)
qed

subsection \<open>The first call\<close>

lemma foldl_jadd_PInf:
  "\<forall>v \<in> set xs. \<exists>r. v = Num r \<and> 0 \<le> r \<Longrightarrow> foldl jadd PInf xs = PInf"
  by (induction xs) auto

lemma foldl_jadd_nonneg:
  "\<forall>v \<in> set xs. \<exists>r. v = Num r \<and> 0 \<le> r \<Longrightarrow> 0 \<le> a \<Longrightarrow>
   foldl jadd (Num a) xs = PInf \<or> (\<exists>s. foldl jadd (Num a) xs = Num s \<and> 0 \<le> s)"
proof (induction xs arbitrary: a)
  case Nil
  then show ?case by simp
next
  case (Cons x xs)
  then obtain r where r: "x = Num r" "0 \<le> r" by auto
  have t: "\<forall>v \<in> set xs. \<exists>r. v = Num r \<and> 0 \<le> r" using Cons.prems(1) by simp
  have "0 \<le> a + r" using Cons.prems(2) r by simp
  from rnd_nonneg [OF this] show ?case
  proof
    assume "rnd (a + r) = PInf"
    then show ?thesis using r foldl_jadd_PInf [OF t] by simp
  next
    assume "rnd (a + r) = Num (fl (a + r)) \<and> 0 \<le> fl (a + r) \<and> fl (a + r) < pw2 1024"
    then show ?thesis using r Cons.IH [OF t, of "fl (a + r)"] by simp
  qed
qed

lemma mean_nonneg:
  assumes "\<forall>v \<in> set xs. \<exists>r. v = Num r \<and> 0 \<le> r"
  shows "mean xs = NaN \<or> mean xs = PInf
       \<or> (\<exists>e. mean xs = Num e \<and> 0 \<le> e \<and> fl e = e \<and> e < pw2 1024)"
proof (cases "xs = []")
  case True
  then show ?thesis by (simp add: mean_def jsum_def inf_sgn_def)
next
  case False
  then have n: "0 < real (length xs)" by simp
  have "0 \<le> (0::real)" by simp
  from foldl_jadd_nonneg [OF assms this] show ?thesis
  proof
    assume "foldl jadd (Num 0) xs = PInf"
    then show ?thesis using n by (simp add: mean_def jsum_def)
  next
    assume "\<exists>s. foldl jadd (Num 0) xs = Num s \<and> 0 \<le> s"
    then obtain s where s: "foldl jadd (Num 0) xs = Num s" "0 \<le> s" by auto
    have "0 \<le> s / real (length xs)" using s(2) by simp
    from rnd_nonneg [OF this] show ?thesis
      using s n by (auto simp: mean_def jsum_def)
  qed
qed

lemma mean_single:
  assumes "e = NaN \<or> e = PInf \<or> (\<exists>r. e = Num r \<and> fl r = r \<and> \<bar>r\<bar> < pw2 1024)"
  shows "mean [e] = e"
  using assms by (auto simp: mean_def jsum_def rnd_dbl)

lemma no_beat_self:
  assumes "e = NaN \<or> e = PInf \<or> (\<exists>r. e = Num r \<and> 0 \<le> r \<and> fl r = r \<and> r < pw2 1024)"
  shows "\<not> jgt e (jmul e (Num 1.5))"
proof -
  consider "e = NaN" | "e = PInf" | r where "e = Num r" "0 \<le> r" "fl r = r" "r < pw2 1024"
    using assms by auto
  then show ?thesis
  proof cases
    case 1
    then show ?thesis by simp
  next
    case 2
    then show ?thesis by (simp add: inf_sgn_def)
  next
    case 3
    have "fl r \<le> fl (r * 1.5)" using 3(2) by (intro fl_mono) simp
    then have "r \<le> fl (r * 1.5)" using 3(3) by simp
    moreover have "- pw2 1024 < 0" by simp
    ultimately show ?thesis using 3(1,2,4) by (auto simp: rnd_def)
  qed
qed

text \<open>
  C10. The first call of the detector, on the state of process start, returns false for
  every snapshot whose normalized values are non-negative numbers: the history then holds
  the current energy alone, so the rolling average is the current energy.
\<close>

theorem first_call_no_beat:
  assumes "\<forall>v \<in> set data. \<exists>r. v = Num r \<and> 0 \<le> r"
  shows "\<not> fst (detectBeat now data initialBeatState)
     \<and> mean (beatHistory (snd (detectBeat now data initialBeatState)))
         = averageRange data 0 10"
proof -
  let ?e = "mean (take 11 data)"
  have "\<forall>v \<in> set (take 11 data). \<exists>r. v = Num r \<and> 0 \<le> r"
    using assms by (meson in_set_takeD)
  from mean_nonneg [OF this]
  have e: "?e = NaN \<or> ?e = PInf
       \<or> (\<exists>r. ?e = Num r \<and> 0 \<le> r \<and> fl r = r \<and> r < pw2 1024)" .
  then have m: "mean [?e] = ?e" by (intro mean_single) auto
  have "\<not> jgt ?e (jmul ?e (Num 1.5))" using e by (rule no_beat_self)
  then show ?thesis
    by (simp add: detectBeat_def averageRange_def slice_def pushHistory_def
        initialBeatState_def m Let_def)
qed

theorem first_call_no_beat_witness:
  "\<not> fst (detectBeat 1000 [Num 1, Num 0] initialBeatState)
   \<and> mean (beatHistory (snd (detectBeat 1000 [Num 1, Num 0] initialBeatState))) = Num 0.5"
proof -
  have h: "\<forall>v \<in> set [Num 1, Num 0]. \<exists>r. v = Num r \<and> 0 \<le> r"
    by simp
  have e: "averageRange [Num 1, Num 0] 0 10 = Num 0.5"
    by (simp add: averageRange_def slice_def mean_def jsum_def rnd_evals rne_def pw2_def)
  from first_call_no_beat [OF h, of 1000] e show ?thesis
    by simp
qed

section \<open>The extracted metrics\<close>

lemma lowFreq_eq:
  "lowFreq (metrics (fst (processAudioData now audioData st)))
     = averageRange (normalizedData audioData) 0 10"
  by (simp add: processAudioData_def Let_def)

lemma midFreq_eq:
  "midFreq (metrics (fst (processAudioData now audioData st)))
     = averageRange (normalizedData audioData) 11 100"
  by (simp add: processAudioData_def Let_def)

lemma highFreq_eq:
  "highFreq (metrics (fst (processAudioData now audioData st)))
     = averageRange (normalizedData audioData) 101 255"
  by (simp add: processAudioData_def Let_def)

lemma amplitude_eq:
  "amplitude_m (metrics (fst (processAudioData now audioData st)))
     = mean (normalizedData audioData)"
  by (simp add: processAudioData_def Let_def)

lemma peaks_eq:
  "peaks (metrics (fst (processAudioData now audioData st)))
     = findPeaks (normalizedData audioData)"
  by (simp add: processAudioData_def Let_def)

subsection \<open>Uniform snapshots\<close>

lemma byte_normalized:
  fixes b :: "8 word"
  shows "\<exists>x. jdiv (Num (real (unat b))) (Num 255) = Num x \<and> 0 \<le> x \<and> x \<le> 1
           \<and> \<bar>x - real (unat b) / 255\<bar> \<le> pw2 (- 53)"
proof -
  let ?q = "real (unat b) / 255"
  have "unat b < 2 ^ 8" using unsigned_less [of b] by simp
  then have "unat b \<le> 255" by simp
  then have "real (unat b) \<le> real (255::nat)" by (simp only: of_nat_le_iff)
  then have "real (unat b) \<le> 255" by simp
  moreover have "0 \<le> real (unat b)" by (rule of_nat_0_le_iff)
  ultimately have q: "0 \<le> ?q" "?q \<le> 1" by simp_all
  then have "\<bar>?q\<bar> \<le> pw2 1023" by (intro le_pw2_1023) simp
  then have r: "rnd ?q = Num (fl ?q)" by (rule rnd_small)
  have "fl ?q \<le> fl 1" using q(2) by (rule fl_mono)
  then have u: "fl ?q \<le> 1" by simp
  have l: "0 \<le> fl ?q" using q(1) by (rule fl_nonneg)
  have "\<bar>?q\<bar> < pw2 (0 + 1)" using q by (simp add: pw2_def)
  then have "\<bar>fl ?q - ?q\<bar> \<le> pw2 (0 - 53)" by (rule fl_abs_err) simp
  then show ?thesis using r u l by simp
qed

lemma foldl_jadd_replicate:
  "0 \<le> x \<Longrightarrow> 0 \<le> a \<Longrightarrow> a + real n * (x + pw2 (- 45)) \<le> 500 \<Longrightarrow>
   \<exists>s. foldl jadd (Num a) (replicate n (Num x)) = Num s \<and> 0 \<le> s
       \<and> \<bar>s - (a + real n * x)\<bar> \<le> real n * pw2 (- 45)"
proof (induction n arbitrary: a)
  case 0
  then show ?case by simp
next
  case (Suc n)
  let ?a = "fl (a + x)"
  have p: "0 \<le> pw2 (- 45)" by simp
  have n: "0 \<le> real n * (x + pw2 (- 45))" using Suc.prems(1) by simp
  have ax: "0 \<le> a + x" using Suc.prems(1,2) by simp
  have b: "a + x + pw2 (- 45) + real n * (x + pw2 (- 45)) \<le> 500"
    using Suc.prems(3) by (simp add: algebra_simps)
  then have s: "a + x \<le> 500" using n p by linarith
  then have "\<bar>a + x\<bar> \<le> pw2 1023" using ax by (intro le_pw2_1023) simp
  then have r: "rnd (a + x) = Num ?a" by (rule rnd_small)
  have "\<bar>a + x\<bar> < pw2 (8 + 1)" using s ax by (simp add: pw2_9)
  then have "\<bar>?a - (a + x)\<bar> \<le> pw2 (8 - 53)" by (rule fl_abs_err) simp
  then have e: "\<bar>?a - (a + x)\<bar> \<le> pw2 (- 45)" by simp
  have a0: "0 \<le> ?a" using ax by (rule fl_nonneg)
  have "?a + real n * (x + pw2 (- 45)) \<le> 500" using b e by linarith
  from Suc.IH [OF Suc.prems(1) a0 this]
  obtain s where s: "foldl jadd (Num ?a) (replicate n (Num x)) = Num s" "0 \<le> s"
    "\<bar>s - (?a + real n * x)\<bar> \<le> real n * pw2 (- 45)" by auto
  have "\<bar>s - (a + real (Suc n) * x)\<bar> \<le> real (Suc n) * pw2 (- 45)"
    using s(3) e by (simp add: algebra_simps)
  then show ?case using s(1,2) r by auto
qed

lemma mean_replicate:
  assumes "0 \<le> x" and "x \<le> 1" and "0 < n" and "n \<le> 256"
  shows "\<exists>m. mean (replicate n (Num x)) = Num m \<and> \<bar>m - x\<bar> \<le> pw2 (- 45) + pw2 (- 53)"
proof -
  have p: "pw2 (- 45) \<le> 1 / 2" by (simp add: pw2_def)
  have "real n * (x + pw2 (- 45)) \<le> 256 * (1 + 1 / 2)"
    using assms p by (intro mult_mono) simp_all
  then have "0 + real n * (x + pw2 (- 45)) \<le> 500" by simp
  from foldl_jadd_replicate [OF assms(1) _ this]
  obtain s where s: "foldl jadd (Num 0) (replicate n (Num x)) = Num s" "0 \<le> s"
    "\<bar>s - real n * x\<bar> \<le> real n * pw2 (- 45)" by auto
  let ?q = "s / real n"
  have n0: "0 < real n" using assms(3) by simp
  have "s / real n - x = (s - real n * x) / real n" using n0 by (simp add: field_simps)
  then have "\<bar>?q - x\<bar> = \<bar>s - real n * x\<bar> / real n" using n0 by simp
  also have "\<dots> \<le> (real n * pw2 (- 45)) / real n"
    using s(3) n0 by (intro divide_right_mono) simp_all
  finally have d: "\<bar>?q - x\<bar> \<le> pw2 (- 45)" using n0 by simp
  have q0: "0 \<le> ?q" using s(2) by simp
  have q2: "?q < 2" using d assms(2) p by linarith
  then have "\<bar>?q\<bar> \<le> pw2 1023" using q0 by (intro le_pw2_1023) simp
  then have r: "rnd ?q = Num (fl ?q)" by (rule rnd_small)
  have "\<bar>?q\<bar> < pw2 (0 + 1)" using q0 q2 by (simp add: pw2_def)
  then have "\<bar>fl ?q - ?q\<bar> \<le> pw2 (0 - 53)" by (rule fl_abs_err) simp
  then have "\<bar>fl ?q - x\<bar> \<le> pw2 (- 45) + pw2 (- 53)" using d by simp
  moreover have "mean (replicate n (Num x)) = Num (fl ?q)"
    using s(1) r n0 by (simp add: mean_def jsum_def)
  ultimately show ?thesis by blast
qed

lemma band_uniform:
  fixes b :: "8 word"
  assumes "0 < n" and "n \<le> 256"
  shows "\<exists>m. mean (replicate n (jdiv (Num (real (unat b))) (Num 255))) = Num m
           \<and> \<bar>m - real (unat b) / 255\<bar> \<le> 1 / 2 ^ 44"
proof -
  from byte_normalized [of b] obtain x where
    x: "jdiv (Num (real (unat b))) (Num 255) = Num x" "0 \<le> x" "x \<le> 1"
    "\<bar>x - real (unat b) / 255\<bar> \<le> pw2 (- 53)" by auto
  from mean_replicate [OF x(2,3) assms] obtain m where
    m: "mean (replicate n (Num x)) = Num m" "\<bar>m - x\<bar> \<le> pw2 (- 45) + pw2 (- 53)" by auto
  have "pw2 (- 45) + pw2 (- 53) + pw2 (- 53) \<le> 1 / 2 ^ 44" by (simp add: pw2_def)
  then have "\<bar>m - real (unat b) / 255\<bar> \<le> 1 / 2 ^ 44" using m(2) x(4) by linarith
  then show ?thesis using m(1) x(1) by auto
qed

lemma findPeaks_loop_replicate: "findPeaks_loop (replicate n x) i acc = acc"
proof (induction "replicate n x" i acc rule: findPeaks_loop.induct)
  case (1 i acc)
  show ?case
  proof (cases "i + 1 < n")
    case True
    then have "i < n" "i - 1 < n" by simp_all
    with True 1 show ?thesis
      by (subst findPeaks_loop.simps) (simp add: jgt_irrefl)
  next
    case False
    then show ?thesis by (subst findPeaks_loop.simps) simp
  qed
qed

text \<open>
  C5, as stated, fails: for 256 bins that all hold the byte 51 the normalized value is
  the binary64 value of \<open>51 / 255\<close>, and the amplitude and the three band energies are
  four sums of it that round differently. Neither the amplitude nor the low band energy
  is \<open>51 / 255\<close>, as a real number or as the binary64 quotient, and the three band
  energies differ from each other.
\<close>

theorem uniform_51:
  "jdiv (Num 51) (Num 255) = Num (3602879701896397 / 18014398509481984)
   \<and> amplitude_m (metrics (fst (processAudioData 0 (replicate 256 51) initialBeatState)))
       = Num (1801439850948205 / 9007199254740992)
   \<and> lowFreq (metrics (fst (processAudioData 0 (replicate 256 51) initialBeatState)))
       = Num (7205759403792793 / 36028797018963968)
   \<and> midFreq (metrics (fst (processAudioData 0 (replicate 256 51) initialBeatState)))
       = Num (7205759403792781 / 36028797018963968)
   \<and> highFreq (metrics (fst (processAudioData 0 (replicate 256 51) initialBeatState)))
       = Num (7205759403792775 / 36028797018963968)
   \<and> (1801439850948205 / 9007199254740992 :: real) \<noteq> 51 / 255
   \<and> (7205759403792793 / 36028797018963968 :: real) \<noteq> 51 / 255
   \<and> (7205759403792793 / 36028797018963968 :: real) \<noteq> 7205759403792781 / 36028797018963968
   \<and> (7205759403792781 / 36028797018963968 :: real) \<noteq> 7205759403792775 / 36028797018963968
   \<and> amplitude_m (metrics (fst (processAudioData 0 (replicate 256 51) initialBeatState)))
       \<noteq> jdiv (Num 51) (Num 255)
   \<and> lowFreq (metrics (fst (processAudioData 0 (replicate 256 51) initialBeatState)))
       \<noteq> jdiv (Num 51) (Num 255)
   \<and> lowFreq (metrics (fst (processAudioData 0 (replicate 256 51) initialBeatState)))
       \<noteq> midFreq (metrics (fst (processAudioData 0 (replicate 256 51) initialBeatState)))
   \<and> midFreq (metrics (fst (processAudioData 0 (replicate 256 51) initialBeatState)))
       \<noteq> highFreq (metrics (fst (processAudioData 0 (replicate 256 51) initialBeatState)))
   \<and> lowFreq (metrics (fst (processAudioData 0 (replicate 256 51) initialBeatState)))
       \<noteq> highFreq (metrics (fst (processAudioData 0 (replicate 256 51) initialBeatState)))"
proof -
  let ?x = "Num (3602879701896397 / 18014398509481984)"
  note ev = mean_def jsum_def eval_nat_numeral rnd_evals rne_def pw2_def
  have b: "jdiv (Num 51) (Num 255) = ?x"
    by (simp add: rnd_evals rne_def pw2_def)
  have d: "normalizedData (replicate 256 51) = replicate 256 ?x"
    by (simp add: normalizedData_replicate rnd_evals rne_def pw2_def)
  have a: "mean (replicate 256 ?x) = Num (1801439850948205 / 9007199254740992)"
    by (simp add: ev)
  have l: "mean (replicate 11 ?x) = Num (7205759403792793 / 36028797018963968)"
    by (simp add: ev)
  have m: "mean (replicate 90 ?x) = Num (7205759403792781 / 36028797018963968)"
    by (simp add: ev)
  have h: "mean (replicate 155 ?x) = Num (7205759403792775 / 36028797018963968)"
    by (simp add: ev)
  have s1: "slice (replicate 256 ?x) 0 (10 + 1) = replicate 11 ?x"
    and s2: "slice (replicate 256 ?x) 11 (100 + 1) = replicate 90 ?x"
    and s3: "slice (replicate 256 ?x) 101 (255 + 1) = replicate 155 ?x"
    by (simp_all add: slice_replicate)
  have A: "amplitude_m (metrics (fst (processAudioData 0 (replicate 256 51) initialBeatState)))
       = Num (1801439850948205 / 9007199254740992)"
    by (simp only: amplitude_eq d a)
  have L: "lowFreq (metrics (fst (processAudioData 0 (replicate 256 51) initialBeatState)))
       = Num (7205759403792793 / 36028797018963968)"
    by (simp only: lowFreq_eq d averageRange_def s1 l)
  have M: "midFreq (metrics (fst (processAudioData 0 (replicate 256 51) initialBeatState)))
       = Num (7205759403792781 / 36028797018963968)"
    by (simp only: midFreq_eq d averageRange_def s2 m)
  have H: "highFreq (metrics (fst (processAudioData 0 (replicate 256 51) initialBeatState)))
       = Num (7205759403792775 / 36028797018963968)"
    by (simp only: highFreq_eq d averageRange_def s3 h)
  show ?thesis unfolding A L M H b by simp
qed

text \<open>
  C5, amended. For a snapshot of 256 bins that all hold the byte \<open>b\<close>, the amplitude and
  the three band energies are finite numbers that each differ from \<open>b / 255\<close> by at most
  \<open>2 ^ -44\<close>, the rounding of the sums and quotients, and there is no peak.
\<close>

theorem uniform_snapshot:
  "\<exists>a l m h.
      amplitude_m (metrics (fst (processAudioData now (replicate 256 b) st))) = Num a
    \<and> lowFreq (metrics (fst (processAudioData now (replicate 256 b) st))) = Num l
    \<and> midFreq (metrics (fst (processAudioData now (replicate 256 b) st))) = Num m
    \<and> highFreq (metrics (fst (processAudioData now (replicate 256 b) st))) = Num h
    \<and> \<bar>a - real (unat b) / 255\<bar> \<le> 1 / 2 ^ 44
    \<and> \<bar>l - real (unat b) / 255\<bar> \<le> 1 / 2 ^ 44
    \<and> \<bar>m - real (unat b) / 255\<bar> \<le> 1 / 2 ^ 44
    \<and> \<bar>h - real (unat b) / 255\<bar> \<le> 1 / 2 ^ 44
    \<and> peaks (metrics (fst (processAudioData now (replicate 256 b) st))) = []"
proof -
  let ?v = "jdiv (Num (real (unat b))) (Num 255)"
  from band_uniform [of 256 b] obtain a where
    a: "mean (replicate 256 ?v) = Num a" "\<bar>a - real (unat b) / 255\<bar> \<le> 1 / 2 ^ 44" by auto
  from band_uniform [of 11 b] obtain l where
    l: "mean (replicate 11 ?v) = Num l" "\<bar>l - real (unat b) / 255\<bar> \<le> 1 / 2 ^ 44" by auto
  from band_uniform [of 90 b] obtain m where
    m: "mean (replicate 90 ?v) = Num m" "\<bar>m - real (unat b) / 255\<bar> \<le> 1 / 2 ^ 44" by auto
  from band_uniform [of 155 b] obtain h where
    h: "mean (replicate 155 ?v) = Num h" "\<bar>h - real (unat b) / 255\<bar> \<le> 1 / 2 ^ 44" by auto
  have s1: "slice (replicate 256 ?v) 0 (10 + 1) = replicate 11 ?v"
    and s2: "slice (replicate 256 ?v) 11 (100 + 1) = replicate 90 ?v"
    and s3: "slice (replicate 256 ?v) 101 (255 + 1) = replicate 155 ?v"
    by (simp_all add: slice_replicate)
  have "amplitude_m (metrics (fst (processAudioData now (replicate 256 b) st))) = Num a"
    by (simp only: amplitude_eq normalizedData_replicate a(1))
  moreover have "lowFreq (metrics (fst (processAudioData now (replicate 256 b) st))) = Num l"
    by (simp only: lowFreq_eq normalizedData_replicate averageRange_def s1 l(1))
  moreover have "midFreq (metrics (fst (processAudioData now (replicate 256 b) st))) = Num m"
    by (simp only: midFreq_eq normalizedData_replicate averageRange_def s2 m(1))
  moreover have "highFreq (metrics (fst (processAudioData now (replicate 256 b) st))) = Num h"
    by (simp only: highFreq_eq normalizedData_replicate averageRange_def s3 h(1))
  moreover have "peaks (metrics (fst (processAudioData now (replicate 256 b) st))) = []"
    by (simp add: peaks_eq normalizedData_replicate findPeaks_def findPeaks_loop_replicate)
  ultimately show ?thesis using a(2) l(2) m(2) h(2) by blast
qed

subsection \<open>Short snapshots\<close>

lemma findPeaks_Nil: "findPeaks [] = []"
  by (simp add: findPeaks_def findPeaks_loop.simps)

text \<open>
  C8, as stated, fails: on the empty snapshot \<open>processAudioData\<close> returns a result, and
  its amplitude, its low band energy and the derived intensity are \<open>NaN\<close>.
\<close>

theorem empty_snapshot_returns_NaN:
  "amplitude_m (metrics (fst (processAudioData 0 [] initialBeatState))) = NaN
   \<and> lowFreq (metrics (fst (processAudioData 0 [] initialBeatState))) = NaN
   \<and> intensity (visualParams (fst (processAudioData 0 [] initialBeatState))) = NaN"
  by (simp add: processAudioData_def normalizedData_def averageRange_def slice_def mean_def
      jsum_def inf_sgn_def Let_def)

text \<open>
  C8, amended. On the empty snapshot \<open>processAudioData\<close> raises no error: it returns a
  result whose amplitude, band energies, intensity, colorIntensity, patternSize and
  complexity are \<open>NaN\<close>, with no peak, no beat and speed 1, and the detector has pushed
  \<open>NaN\<close> onto its history. On a snapshot of at most 11 bins \<open>midFreq\<close> and complexity are
  \<open>NaN\<close>, and on one of at most 101 bins \<open>highFreq\<close> and colorIntensity are.
\<close>

theorem short_snapshot_NaN:
  "amplitude_m (metrics (fst (processAudioData now [] st))) = NaN
   \<and> peaks (metrics (fst (processAudioData now [] st))) = []
   \<and> lowFreq (metrics (fst (processAudioData now [] st))) = NaN
   \<and> midFreq (metrics (fst (processAudioData now [] st))) = NaN
   \<and> highFreq (metrics (fst (processAudioData now [] st))) = NaN
   \<and> \<not> beatDetected (metrics (fst (processAudioData now [] st)))
   \<and> intensity (visualParams (fst (processAudioData now [] st))) = NaN
   \<and> speed (visualParams (fst (processAudioData now [] st))) = Num 1
   \<and> colorIntensity (visualParams (fst (processAudioData now [] st))) = NaN
   \<and> patternSize_vp (visualParams (fst (processAudioData now [] st))) = NaN
   \<and> complexity (visualParams (fst (processAudioData now [] st))) = NaN
   \<and> lastBeatTime (snd (processAudioData now [] st)) = lastBeatTime st
   \<and> beatHistory (snd (processAudioData now [] st)) = pushHistory (beatHistory st) NaN
   \<and> (length audioData \<le> 11 \<longrightarrow>
        midFreq (metrics (fst (processAudioData now audioData st))) = NaN
      \<and> complexity (visualParams (fst (processAudioData now audioData st))) = NaN)
   \<and> (length audioData \<le> 101 \<longrightarrow>
        highFreq (metrics (fst (processAudioData now audioData st))) = NaN
      \<and> colorIntensity (visualParams (fst (processAudioData now audioData st))) = NaN)"
  by (simp add: processAudioData_def normalizedData_def averageRange_def slice_def mean_def
      jsum_def inf_sgn_def Let_def findPeaks_Nil detectBeat_def)

theorem short_snapshot_NaN_witness:
  "length [255, 0, 128 :: 8 word] \<le> 11
   \<and> midFreq (metrics (fst (processAudioData 1000 [255, 0, 128] initialBeatState))) = NaN
   \<and> length [255, 0, 128 :: 8 word] \<le> 101
   \<and> highFreq (metrics (fst (processAudioData 1000 [255, 0, 128] initialBeatState))) = NaN"
proof -
  have a: "length [255, 0, 128 :: 8 word] \<le> 11" and b: "length [255, 0, 128 :: 8 word] \<le> 101"
    by simp_all
  note t = short_snapshot_NaN [of 1000 initialBeatState "[255, 0, 128]"]
  from t a have m: "midFreq (metrics (fst (processAudioData 1000 [255, 0, 128] initialBeatState))) = NaN"
    by blast
  from t b have h: "highFreq (metrics (fst (processAudioData 1000 [255, 0, 128] initialBeatState))) = NaN"
    by blast
  from a m b h show ?thesis by (intro conjI)
qed

section \<open>The motion engine\<close>

subsection \<open>Hue\<close>

lemma jsmod_nonneg: "0 \<le> a \<Longrightarrow> jsmod a 360 = a - 360 * of_int \<lfloor>a / 360\<rfloor>"
  by (simp add: jsmod_def)

lemma jsmod_range:
  assumes "0 \<le> a"
  shows "0 \<le> jsmod a 360 \<and> jsmod a 360 < 360"
proof -
  have "of_int \<lfloor>a / 360\<rfloor> \<le> a / 360" and "a / 360 < of_int \<lfloor>a / 360\<rfloor> + 1"
    by linarith+
  then have "360 * of_int \<lfloor>a / 360\<rfloor> \<le> a" and "a < 360 * of_int \<lfloor>a / 360\<rfloor> + 360"
    by (simp_all add: field_simps)
  then show ?thesis using assms by (simp add: jsmod_nonneg)
qed

lemma jsmod_add:
  assumes "0 \<le> a" and "0 \<le> c"
  shows "jsmod (jsmod a 360 + c) 360 = jsmod (a + c) 360"
proof -
  let ?k = "\<lfloor>a / 360\<rfloor>"
  have r: "0 \<le> jsmod a 360" using jsmod_range [OF assms(1)] by simp
  have e: "jsmod a 360 = a - 360 * of_int ?k" using assms(1) by (rule jsmod_nonneg)
  have "(a - 360 * of_int ?k + c) / 360 = (a + c) / 360 - of_int ?k"
    by (simp add: field_simps)
  then have f: "\<lfloor>(a - 360 * of_int ?k + c) / 360\<rfloor> = \<lfloor>(a + c) / 360\<rfloor> - ?k"
    by (simp only: floor_diff_of_int)
  have "jsmod (jsmod a 360 + c) 360
      = (a - 360 * of_int ?k + c) - 360 * of_int \<lfloor>(a - 360 * of_int ?k + c) / 360\<rfloor>"
    using r assms(2) e jsmod_nonneg [of "jsmod a 360 + c"] by simp
  also have "\<dots> = (a + c) - 360 * of_int \<lfloor>(a + c) / 360\<rfloor>"
    by (simp only: f) (simp add: algebra_simps)
  also have "\<dots> = jsmod (a + c) 360"
    using assms by (simp add: jsmod_nonneg)
  finally show ?thesis .
qed

lemma jsmod_grid:
  assumes "a = of_int m / 2 ^ 44" and "0 \<le> a"
  shows "\<exists>n::int. jsmod a 360 = of_int n / 2 ^ 44"
proof -
  have "jsmod a 360 = of_int (m - 360 * 2 ^ 44 * \<lfloor>a / 360\<rfloor>) / 2 ^ 44"
    using assms by (simp add: jsmod_nonneg field_simps)
  then show ?thesis ..
qed

lemma length_updateVertices: "length (updateVertices anim p am vs) = length vs"
  by (simp add: updateVertices_def)

lemma nth_updateVertices:
  "i < length vs \<Longrightarrow> updateVertices anim p am vs ! i = updateVertex anim p am i (vs ! i)"
  by (simp add: updateVertices_def)

lemma length_tick: "length (fst (tick inp s)) = length (fst s)"
  by (simp add: tick_def Let_def length_updateVertices)

lemma length_ticks: "length (fst (ticks inps s)) = length (fst s)"
  by (induction inps arbitrary: s) (simp_all add: length_tick)

lemma hue_tick:
  "i < length vs \<Longrightarrow>
   hue (fst (tick inp (vs, anim)) ! i) = jsmod (fl (hue (vs ! i) + colorSpeed (params inp))) 360"
  by (simp add: tick_def Let_def nth_updateVertices updateVertex_def)

lemma hue_ticks_funpow:
  "i < length vs \<Longrightarrow> \<forall>inp \<in> set inps. colorSpeed (params inp) = c \<Longrightarrow>
   hue (fst (ticks inps (vs, anim)) ! i)
     = ((\<lambda>h. jsmod (fl (h + c)) 360) ^^ length inps) (hue (vs ! i))"
proof (induction inps arbitrary: vs anim)
  case Nil
  then show ?case by simp
next
  case (Cons inp inps)
  define f where "f = (\<lambda>h. jsmod (fl (h + c)) 360)"
  obtain vs' anim' where t: "tick inp (vs, anim) = (vs', anim')" by (cases "tick inp (vs, anim)")
  have l: "i < length vs'" using length_tick [of inp "(vs, anim)"] t Cons.prems(1) by simp
  have h: "hue (vs' ! i) = f (hue (vs ! i))"
    using hue_tick [OF Cons.prems(1), of inp anim] t Cons.prems(2) by (simp add: f_def)
  have "hue (fst (ticks inps (vs', anim')) ! i) = (f ^^ length inps) (hue (vs' ! i))"
    unfolding f_def using Cons.prems(2) by (intro Cons.IH [OF l]) simp
  then have "hue (fst (ticks (inp # inps) (vs, anim)) ! i) = (f ^^ length inps) (f (hue (vs ! i)))"
    using t h by simp
  also have "\<dots> = (f ^^ length (inp # inps)) (hue (vs ! i))"
    by (simp only: length_Cons funpow_Suc_right o_apply)
  finally show ?case unfolding f_def .
qed

lemma hue_funpow_range:
  "0 \<le> h \<Longrightarrow> h < 360 \<Longrightarrow> 0 \<le> c \<Longrightarrow>
   0 \<le> ((\<lambda>h. jsmod (fl (h + c)) 360) ^^ n) h \<and> ((\<lambda>h. jsmod (fl (h + c)) 360) ^^ n) h < 360"
proof (induction n)
  case 0
  then show ?case by simp
next
  case (Suc n)
  let ?h = "((\<lambda>h. jsmod (fl (h + c)) 360) ^^ n) h"
  have "0 \<le> ?h + c" using Suc by simp
  then have "0 \<le> fl (?h + c)" by (rule fl_nonneg)
  from jsmod_range [OF this] show ?case by simp
qed

lemma hue_funpow_exact:
  "0 \<le> h \<Longrightarrow> h < 360 \<Longrightarrow> 0 \<le> c \<Longrightarrow> c \<le> 2 \<Longrightarrow>
   h = of_int m / 2 ^ 44 \<Longrightarrow> c = of_int k / 2 ^ 44 \<Longrightarrow>
   ((\<lambda>h. jsmod (fl (h + c)) 360) ^^ n) h = jsmod (h + real n * c) 360
   \<and> (\<exists>j::int. ((\<lambda>h. jsmod (fl (h + c)) 360) ^^ n) h = of_int j / 2 ^ 44)"
proof (induction n)
  case 0
  then have "\<lfloor>h / 360\<rfloor> = 0" by (simp add: floor_eq_iff)
  with 0 show ?case by (auto simp: jsmod_nonneg)
next
  case (Suc n)
  define hn where "hn = ((\<lambda>h. jsmod (fl (h + c)) 360) ^^ n) h"
  from Suc obtain j :: int where
    e: "hn = jsmod (h + real n * c) 360" and j: "hn = of_int j / 2 ^ 44"
    unfolding hn_def by auto
  have r: "0 \<le> hn" "hn < 360"
    unfolding hn_def using hue_funpow_range [OF Suc.prems(1,2,3), of n] by blast+
  have "hn + c = of_int j / 2 ^ 44 + of_int k / 2 ^ 44" by (simp only: j Suc.prems(6))
  then have g: "hn + c = of_int (j + k) / 2 ^ 44" by (simp add: add_divide_distrib)
  have "\<bar>hn + c\<bar> < 512" using r Suc.prems(3,4) by simp
  with g have f: "fl (hn + c) = hn + c" by (rule fl_grid)
  have n: "0 \<le> h + real n * c" using Suc.prems(1,3) by simp
  have "jsmod (fl (hn + c)) 360 = jsmod (hn + c) 360"
    by (simp only: f)
  also have "\<dots> = jsmod (jsmod (h + real n * c) 360 + c) 360"
    by (simp only: e)
  also have "\<dots> = jsmod (h + real n * c + c) 360"
    using n Suc.prems(3) by (rule jsmod_add)
  finally have 1: "jsmod (fl (hn + c)) 360 = jsmod (h + real (Suc n) * c) 360"
    by (simp add: algebra_simps)
  have "0 \<le> hn + c" using r Suc.prems(3) by simp
  with g have "\<exists>n::int. jsmod (hn + c) 360 = of_int n / 2 ^ 44" by (rule jsmod_grid)
  then have 2: "\<exists>n::int. jsmod (fl (hn + c)) 360 = of_int n / 2 ^ 44" by (simp only: f)
  have "((\<lambda>h. jsmod (fl (h + c)) 360) ^^ Suc n) h = jsmod (fl (hn + c)) 360"
    by (simp add: hn_def)
  with 1 2 show ?case by (simp only:) 
qed

text \<open>
  Twenty-five additions of the binary64 value of \<open>1.2\<close>, starting from 330: every sum
  lies between 256 and 512, where the binary64 values are the multiples of \<open>2 ^ -44\<close>.
\<close>

lemma hue_example:
  "((\<lambda>h. jsmod (fl (h + 5404319552844595 / 4503599627370496)) 360) ^^ 25) 330
     = 6333186975989755 / 17592186044416"
proof -
  define f where "f = (\<lambda>h::real. jsmod (fl (h + 5404319552844595 / 4503599627370496)) 360)"
  have step: "(f ^^ n) x = y \<Longrightarrow> f y = z \<Longrightarrow> Suc n = m \<Longrightarrow> (f ^^ m) x = z" for n m x y z
    by auto
  note ev = f_def fl_eval [where e = 8] rne_def pw2_def jsmod_def
  have s1: "f (330) = 5826532017910579 / 17592186044416" by (simp add: ev)
  have s2: "f (5826532017910579 / 17592186044416) = 2923821320581939 / 8796093022208" by (simp add: ev)
  have s3: "f (2923821320581939 / 8796093022208) = 5868753264417177 / 17592186044416" by (simp add: ev)
  have s4: "f (5868753264417177 / 17592186044416) = 1472465971917619 / 4398046511104" by (simp add: ev)
  have s5: "f (1472465971917619 / 4398046511104) = 5910974510923775 / 17592186044416" by (simp add: ev)
  have s6: "f (5910974510923775 / 17592186044416) = 2966042567088537 / 8796093022208" by (simp add: ev)
  have s7: "f (2966042567088537 / 8796093022208) = 5953195757430373 / 17592186044416" by (simp add: ev)
  have s8: "f (5953195757430373 / 17592186044416) = 746788297585459 / 2199023255552" by (simp add: ev)
  have s9: "f (746788297585459 / 2199023255552) = 5995417003936971 / 17592186044416" by (simp add: ev)
  have s10: "f (5995417003936971 / 17592186044416) = 3008263813595135 / 8796093022208" by (simp add: ev)
  have s11: "f (3008263813595135 / 8796093022208) = 6037638250443569 / 17592186044416" by (simp add: ev)
  have s12: "f (6037638250443569 / 17592186044416) = 1514687218424217 / 4398046511104" by (simp add: ev)
  have s13: "f (1514687218424217 / 4398046511104) = 6079859496950167 / 17592186044416" by (simp add: ev)
  have s14: "f (6079859496950167 / 17592186044416) = 3050485060101733 / 8796093022208" by (simp add: ev)
  have s15: "f (3050485060101733 / 8796093022208) = 6122080743456765 / 17592186044416" by (simp add: ev)
  have s16: "f (6122080743456765 / 17592186044416) = 383949460419379 / 1099511627776" by (simp add: ev)
  have s17: "f (383949460419379 / 1099511627776) = 6164301989963363 / 17592186044416" by (simp add: ev)
  have s18: "f (6164301989963363 / 17592186044416) = 3092706306608331 / 8796093022208" by (simp add: ev)
  have s19: "f (3092706306608331 / 8796093022208) = 6206523236469961 / 17592186044416" by (simp add: ev)
  have s20: "f (6206523236469961 / 17592186044416) = 1556908464930815 / 4398046511104" by (simp add: ev)
  have s21: "f (1556908464930815 / 4398046511104) = 6248744482976559 / 17592186044416" by (simp add: ev)
  have s22: "f (6248744482976559 / 17592186044416) = 3134927553114929 / 8796093022208" by (simp add: ev)
  have s23: "f (3134927553114929 / 8796093022208) = 6290965729483157 / 17592186044416" by (simp add: ev)
  have s24: "f (6290965729483157 / 17592186044416) = 789009544092057 / 2199023255552" by (simp add: ev)
  have s25: "f (789009544092057 / 2199023255552) = 6333186975989755 / 17592186044416" by (simp add: ev)
  have k0: "(f ^^ 0) 330 = 330" by simp
  have k1: "(f ^^ 1) 330 = 5826532017910579 / 17592186044416" by (rule step [OF k0 s1]) simp
  have k2: "(f ^^ 2) 330 = 2923821320581939 / 8796093022208" by (rule step [OF k1 s2]) simp
  have k3: "(f ^^ 3) 330 = 5868753264417177 / 17592186044416" by (rule step [OF k2 s3]) simp
  have k4: "(f ^^ 4) 330 = 1472465971917619 / 4398046511104" by (rule step [OF k3 s4]) simp
  have k5: "(f ^^ 5) 330 = 5910974510923775 / 17592186044416" by (rule step [OF k4 s5]) simp
  have k6: "(f ^^ 6) 330 = 2966042567088537 / 8796093022208" by (rule step [OF k5 s6]) simp
  have k7: "(f ^^ 7) 330 = 5953195757430373 / 17592186044416" by (rule step [OF k6 s7]) simp
  have k8: "(f ^^ 8) 330 = 746788297585459 / 2199023255552" by (rule step [OF k7 s8]) simp
  have k9: "(f ^^ 9) 330 = 5995417003936971 / 17592186044416" by (rule step [OF k8 s9]) simp
  have k10: "(f ^^ 10) 330 = 3008263813595135 / 8796093022208" by (rule step [OF k9 s10]) simp
  have k11: "(f ^^ 11) 330 = 6037638250443569 / 17592186044416" by (rule step [OF k10 s11]) simp
  have k12: "(f ^^ 12) 330 = 1514687218424217 / 4398046511104" by (rule step [OF k11 s12]) simp
  have k13: "(f ^^ 13) 330 = 6079859496950167 / 17592186044416" by (rule step [OF k12 s13]) simp
  have k14: "(f ^^ 14) 330 = 3050485060101733 / 8796093022208" by (rule step [OF k13 s14]) simp
  have k15: "(f ^^ 15) 330 = 6122080743456765 / 17592186044416" by (rule step [OF k14 s15]) simp
  have k16: "(f ^^ 16) 330 = 383949460419379 / 1099511627776" by (rule step [OF k15 s16]) simp
  have k17: "(f ^^ 17) 330 = 6164301989963363 / 17592186044416" by (rule step [OF k16 s17]) simp
  have k18: "(f ^^ 18) 330 = 3092706306608331 / 8796093022208" by (rule step [OF k17 s18]) simp
  have k19: "(f ^^ 19) 330 = 6206523236469961 / 17592186044416" by (rule step [OF k18 s19]) simp
  have k20: "(f ^^ 20) 330 = 1556908464930815 / 4398046511104" by (rule step [OF k19 s20]) simp
  have k21: "(f ^^ 21) 330 = 6248744482976559 / 17592186044416" by (rule step [OF k20 s21]) simp
  have k22: "(f ^^ 22) 330 = 3134927553114929 / 8796093022208" by (rule step [OF k21 s22]) simp
  have k23: "(f ^^ 23) 330 = 6290965729483157 / 17592186044416" by (rule step [OF k22 s23]) simp
  have k24: "(f ^^ 24) 330 = 789009544092057 / 2199023255552" by (rule step [OF k23 s24]) simp
  have k25: "(f ^^ 25) 330 = 6333186975989755 / 17592186044416" by (rule step [OF k24 s25]) simp
  from k25 show ?thesis unfolding f_def .
qed

text \<open>
  C6, as stated, fails: with \<open>colorSpeed\<close> the binary64 value of \<open>1.2\<close>, a vertex of hue
  330 has after 25 ticks the hue \<open>359.9999999999997\<close>, which is not
  \<open>(330 + 25 * colorSpeed) mod 360\<close>; with the decimal \<open>1.2\<close> in place of its binary64 value
  that remainder is 0.
\<close>

theorem hue_1_2_after_25_ticks:
  "fl (12 / 10) = 5404319552844595 / 4503599627370496
   \<and> (0.1::real) \<le> 5404319552844595 / 4503599627370496
   \<and> (5404319552844595 / 4503599627370496 :: real) \<le> 2
   \<and> hue (fst (ticks
        (replicate 25 \<lparr>toggled = False,
           params = \<lparr>flowSpeed = 1, colorSpeed = 5404319552844595 / 4503599627370496,
                     waveIntensity = 0.7, patternSize = 1\<rparr>,
           modulation = \<lparr>speedMod = 1, intensityMod = 1, sizeMod = 1\<rparr>\<rparr>)
        ([\<lparr>vertex_x = 600, vertex_y = 300, vx = 0, vy = 0, phase = 0,
           hue = 330, amplitude = 1, frequency = 1\<rparr>], initialAnimationState)) ! 0)
       = 6333186975989755 / 17592186044416
   \<and> jsmod (330 + real 25 * (5404319552844595 / 4503599627370496)) 360
       = 1621295865853378555 / 4503599627370496
   \<and> (6333186975989755 / 17592186044416 :: real) \<noteq> 1621295865853378555 / 4503599627370496
   \<and> jsmod (330 + real 25 * (12 / 10)) 360 = 0"
proof -
  let ?v = "\<lparr>vertex_x = 600, vertex_y = 300, vx = 0, vy = 0, phase = 0,
           hue = 330, amplitude = 1, frequency = 1\<rparr>"
  let ?inp = "\<lparr>toggled = False,
           params = \<lparr>flowSpeed = 1, colorSpeed = 5404319552844595 / 4503599627370496,
                     waveIntensity = 0.7, patternSize = 1\<rparr>,
           modulation = \<lparr>speedMod = 1, intensityMod = 1, sizeMod = 1\<rparr>\<rparr>"
  have c: "fl (12 / 10) = 5404319552844595 / 4503599627370496"
    by (subst fl_eval [where e = 0]) (simp_all add: rne_def pw2_def)
  have "hue (fst (ticks (replicate 25 ?inp) ([?v], initialAnimationState)) ! 0)
      = ((\<lambda>h. jsmod (fl (h + 5404319552844595 / 4503599627370496)) 360)
           ^^ length (replicate 25 ?inp)) (hue ([?v] ! 0))"
    by (rule hue_ticks_funpow) simp_all
  then have h: "hue (fst (ticks (replicate 25 ?inp) ([?v], initialAnimationState)) ! 0)
      = 6333186975989755 / 17592186044416"
    using hue_example by simp
  have m: "jsmod (330 + real 25 * (5404319552844595 / 4503599627370496)) 360
       = 1621295865853378555 / 4503599627370496"
    by (simp add: jsmod_def)
  have z: "jsmod (330 + real 25 * (12 / 10)) 360 = 0"
    by (simp add: jsmod_def)
  from c h m z show ?thesis by simp
qed

text \<open>
  C6, amended. A vertex whose hue \<open>h\<close> is in \<open>[0, 360)\<close> has, after \<open>N\<close> motion ticks that
  all run with the same \<open>colorSpeed\<close> \<open>c\<close> of the slider's range \<open>[0.1, 2]\<close>, a hue in
  \<open>[0, 360)\<close>; when \<open>h\<close> and \<open>c\<close> are multiples of \<open>2 ^ -44\<close>, so that no addition rounds
  (the initial hues \<open>i * 15\<close> and the slider values 0.5, 1, 1.5 and 2 are), this hue is
  \<open>(h + N * c) % 360\<close>, which is \<open>h + N * c\<close> less the largest multiple of \<open>360\<close> not above
  it. The other parameters, the modulation and the effect button may change from tick to
  tick.
\<close>

theorem hue_after_ticks:
  assumes "i < length vs" and "0 \<le> hue (vs ! i)" and "hue (vs ! i) < 360"
    and "0.1 \<le> c" and "c \<le> 2"
    and "\<forall>inp \<in> set inps. colorSpeed (params inp) = c"
  shows "0 \<le> hue (fst (ticks inps (vs, anim)) ! i)
       \<and> hue (fst (ticks inps (vs, anim)) ! i) < 360
       \<and> ((\<exists>m k :: int. hue (vs ! i) = of_int m / 2 ^ 44 \<and> c = of_int k / 2 ^ 44) \<longrightarrow>
            hue (fst (ticks inps (vs, anim)) ! i)
              = jsmod (hue (vs ! i) + real (length inps) * c) 360
          \<and> jsmod (hue (vs ! i) + real (length inps) * c) 360
              = hue (vs ! i) + real (length inps) * c
                - 360 * of_int \<lfloor>(hue (vs ! i) + real (length inps) * c) / 360\<rfloor>)"
proof -
  have c: "0 \<le> c" using assms(4) by simp
  note f = hue_ticks_funpow [OF assms(1,6), of anim]
  have n: "0 \<le> hue (vs ! i) + real (length inps) * c" using assms(2) c by simp
  show ?thesis
    using hue_funpow_range [OF assms(2,3) c, of "length inps"]
      hue_funpow_exact [OF assms(2,3) c assms(5), of _ _ "length inps"]
      jsmod_nonneg [OF n]
    unfolding f by blast
qed

theorem hue_after_ticks_witness:
  "(0::nat) < length [\<lparr>vertex_x = 600, vertex_y = 300, vx = 0, vy = 0, phase = 0,
                         hue = 350, amplitude = 1, frequency = 1\<rparr>]
   \<and> (0.1::real) \<le> 0.5 \<and> (0.5::real) \<le> 2
   \<and> (350::real) = of_int 6157265115545600 / 2 ^ 44
   \<and> (0.5::real) = of_int 8796093022208 / 2 ^ 44
   \<and> hue (fst (ticks
         (replicate 30 \<lparr>toggled = False,
            params = \<lparr>flowSpeed = 1, colorSpeed = 0.5, waveIntensity = 0.7, patternSize = 1\<rparr>,
            modulation = \<lparr>speedMod = 1, intensityMod = 1, sizeMod = 1\<rparr>\<rparr>)
         ([\<lparr>vertex_x = 600, vertex_y = 300, vx = 0, vy = 0, phase = 0,
            hue = 350, amplitude = 1, frequency = 1\<rparr>], initialAnimationState)) ! 0) = 5"
proof -
  let ?v = "\<lparr>vertex_x = 600, vertex_y = 300, vx = 0, vy = 0, phase = 0,
             hue = 350, amplitude = 1, frequency = 1\<rparr>"
  let ?inp = "\<lparr>toggled = False,
            params = \<lparr>flowSpeed = 1, colorSpeed = 0.5, waveIntensity = 0.7, patternSize = 1\<rparr>,
            modulation = \<lparr>speedMod = 1, intensityMod = 1, sizeMod = 1\<rparr>\<rparr>"
  have i: "(0::nat) < length [?v]" by simp
  have h0: "0 \<le> hue ([?v] ! 0)" and h1: "hue ([?v] ! 0) < 360" by simp_all
  have c0: "(0.1::real) \<le> 0.5" and c1: "(0.5::real) \<le> 2" by simp_all
  have a: "\<forall>inp \<in> set (replicate 30 ?inp). colorSpeed (params inp) = 0.5" by simp
  have g1: "(350::real) = of_int 6157265115545600 / 2 ^ 44" by simp
  have g2: "(0.5::real) = of_int 8796093022208 / 2 ^ 44" by simp
  have g: "\<exists>m k :: int. hue ([?v] ! 0) = of_int m / 2 ^ 44 \<and> (0.5::real) = of_int k / 2 ^ 44"
    using g1 g2 by (intro exI [of _ 6157265115545600] exI [of _ 8796093022208]) simp
  have f: "\<lfloor>(365::real) / 360\<rfloor> = 1" by (simp add: floor_eq_iff)
  from hue_after_ticks [OF i h0 h1 c0 c1 a, of initialAnimationState] g
  have "hue (fst (ticks (replicate 30 ?inp) ([?v], initialAnimationState)) ! 0)
      = hue ([?v] ! 0) + real (length (replicate 30 ?inp)) * 0.5
        - 360 * of_int \<lfloor>(hue ([?v] ! 0) + real (length (replicate 30 ?inp)) * 0.5) / 360\<rfloor>"
    by (elim conjE impE) simp_all
  then have "hue (fst (ticks (replicate 30 ?inp) ([?v], initialAnimationState)) ! 0) = 5"
    using f by simp
  with i c0 c1 g1 g2 show ?thesis by (intro conjI)
qed

subsection \<open>Wave\<close>

text \<open>
  C7. On a motion tick with \<open>isPlaying\<close> false, the wave offset of every vertex is
  \<open>(0, 0)\<close> and its new position is the ring-center term plus the flow term, whatever
  the parameters, the modulation and the vertex are.
\<close>

theorem wave_off_when_paused:
  assumes "\<not> isPlaying anim" and "i < length vs"
  shows "waveX anim p am (vs ! i) = 0 \<and> waveY anim p am (vs ! i) = 0
       \<and> vertex_x (updateVertices anim p am vs ! i)
           = centerX anim p am i + flowX anim p am (vs ! i)
       \<and> vertex_y (updateVertices anim p am vs ! i)
           = centerY anim p am i + flowY anim p am (vs ! i)"
  using assms by (simp add: nth_updateVertices updateVertex_def waveX_def waveY_def)

theorem wave_off_when_paused_witness:
  "\<not> isPlaying initialAnimationState
   \<and> (0::nat) < length [\<lparr>vertex_x = 600, vertex_y = 300, vx = 0, vy = 0, phase = 0,
                         hue = 350, amplitude = 1, frequency = 1\<rparr>]
   \<and> waveX initialAnimationState
        \<lparr>flowSpeed = 1, colorSpeed = 0.5, waveIntensity = 0.7, patternSize = 1\<rparr>
        \<lparr>speedMod = 1, intensityMod = 1, sizeMod = 1\<rparr>
        ([\<lparr>vertex_x = 600, vertex_y = 300, vx = 0, vy = 0, phase = 0,
            hue = 350, amplitude = 1, frequency = 1\<rparr>] ! 0) = 0
   \<and> vertex_x (updateVertices initialAnimationState
        \<lparr>flowSpeed = 1, colorSpeed = 0.5, waveIntensity = 0.7, patternSize = 1\<rparr>
        \<lparr>speedMod = 1, intensityMod = 1, sizeMod = 1\<rparr>
        [\<lparr>vertex_x = 600, vertex_y = 300, vx = 0, vy = 0, phase = 0,
            hue = 350, amplitude = 1, frequency = 1\<rparr>] ! 0) = 600"
proof -
  let ?v = "\<lparr>vertex_x = 600, vertex_y = 300, vx = 0, vy = 0, phase = 0,
             hue = 350, amplitude = 1, frequency = 1\<rparr>"
  let ?p = "\<lparr>flowSpeed = 1, colorSpeed = 0.5, waveIntensity = 0.7, patternSize = 1\<rparr>"
  let ?am = "\<lparr>speedMod = 1, intensityMod = 1, sizeMod = 1\<rparr>"
  have n: "\<not> isPlaying initialAnimationState" by (simp add: initialAnimationState_def)
  have i: "(0::nat) < length [?v]" by simp
  have c: "centerX initialAnimationState ?p ?am 0 + flowX initialAnimationState ?p ?am ([?v] ! 0)
      = 600"
    by (simp add: centerX_def flowX_def time_def effectiveSpeed_def effectiveSize_def
        initialAnimationState_def)
  from wave_off_when_paused [OF n i, of ?p ?am] c
  have "waveX initialAnimationState ?p ?am ([?v] ! 0) = 0"
    and "vertex_x (updateVertices initialAnimationState ?p ?am [?v] ! 0) = 600"
    by simp_all
  with n i show ?thesis by (intro conjI)
qed

subsection \<open>Frame\<close>

lemma length_initialVertices: "length (initialVertices random) = 24"
  by (simp add: initialVertices_def)

text \<open>
  C9. A motion tick keeps the number of vertices and, of every vertex, the fields
  \<open>vx\<close>, \<open>vy\<close>, \<open>amplitude\<close> and \<open>frequency\<close>: it changes \<open>x\<close>, \<open>y\<close>, \<open>phase\<close> and
  \<open>hue\<close> only. There are 24 vertices at the start, and 24 after any number of ticks.
\<close>

theorem tick_frame:
  "length (fst (tick inp (vs, anim))) = length vs
   \<and> (\<forall>i<length vs.
        vx (fst (tick inp (vs, anim)) ! i) = vx (vs ! i)
      \<and> vy (fst (tick inp (vs, anim)) ! i) = vy (vs ! i)
      \<and> amplitude (fst (tick inp (vs, anim)) ! i) = amplitude (vs ! i)
      \<and> frequency (fst (tick inp (vs, anim)) ! i) = frequency (vs ! i))
   \<and> length (initialVertices random) = 24
   \<and> length (fst (ticks inps (initialVertices random, initialAnimationState))) = 24"
  by (simp add: length_ticks length_initialVertices length_tick)
     (simp add: tick_def Let_def nth_updateVertices updateVertex_def)

theorem tick_frame_witness:
  "(0::nat) < length [\<lparr>vertex_x = 600, vertex_y = 300, vx = 0.3, vy = -0.2, phase = 0,
                         hue = 350, amplitude = 1.5, frequency = 0.75\<rparr>]
   \<and> vx (fst (tick \<lparr>toggled = True,
            params = \<lparr>flowSpeed = 1, colorSpeed = 0.5, waveIntensity = 0.7, patternSize = 1\<rparr>,
            modulation = \<lparr>speedMod = 1, intensityMod = 1, sizeMod = 1\<rparr>\<rparr>
         ([\<lparr>vertex_x = 600, vertex_y = 300, vx = 0.3, vy = -0.2, phase = 0,
            hue = 350, amplitude = 1.5, frequency = 0.75\<rparr>], initialAnimationState)) ! 0) = 0.3
   \<and> amplitude (fst (tick \<lparr>toggled = True,
            params = \<lparr>flowSpeed = 1, colorSpeed = 0.5, waveIntensity = 0.7, patternSize = 1\<rparr>,
            modulation = \<lparr>speedMod = 1, intensityMod = 1, sizeMod = 1\<rparr>\<rparr>
         ([\<lparr>vertex_x = 600, vertex_y = 300, vx = 0.3, vy = -0.2, phase = 0,
            hue = 350, amplitude = 1.5, frequency = 0.75\<rparr>], initialAnimationState)) ! 0) = 1.5"
proof -
  let ?v = "\<lparr>vertex_x = 600, vertex_y = 300, vx = 0.3, vy = -0.2, phase = 0,
             hue = 350, amplitude = 1.5, frequency = 0.75\<rparr>"
  let ?inp = "\<lparr>toggled = True,
            params = \<lparr>flowSpeed = 1, colorSpeed = 0.5, waveIntensity = 0.7, patternSize = 1\<rparr>,
            modulation = \<lparr>speedMod = 1, intensityMod = 1, sizeMod = 1\<rparr>\<rparr>"
  have i: "(0::nat) < length [?v]" by simp
  from tick_frame [of ?inp "[?v]" initialAnimationState]
  have "\<forall>i<length [?v].
        vx (fst (tick ?inp ([?v], initialAnimationState)) ! i) = vx ([?v] ! i)
      \<and> vy (fst (tick ?inp ([?v], initialAnimationState)) ! i) = vy ([?v] ! i)
      \<and> amplitude (fst (tick ?inp ([?v], initialAnimationState)) ! i) = amplitude ([?v] ! i)
      \<and> frequency (fst (tick ?inp ([?v], initialAnimationState)) ! i) = frequency ([?v] ! i)"
    by blast
  from this [rule_format, OF i]
  have "vx (fst (tick ?inp ([?v], initialAnimationState)) ! 0) = 0.3"
    and "amplitude (fst (tick ?inp ([?v], initialAnimationState)) ! 0) = 1.5"
    by simp_all
  with i show ?thesis by (intro conjI)
qed

section \<open>Edges\<close>

lemma hypot_0: "hypot a 0 = fl \<bar>a\<bar>"
  by (simp add: hypot_def)

lemma fl_tenth: "fl (1 / 10) = 3602879701896397 / 36028797018963968"
  by (subst fl_eval [where e = "- 4"]) (simp_all add: rne_def pw2_def)

lemma fl_270: "fl (270 / 300) = 8106479329266893 / 9007199254740992"
  by (subst fl_eval [where e = "- 1"]) (simp_all add: rne_def pw2_def)

lemma fl_op270: "fl (1 - 8106479329266893 / 9007199254740992)
    = 900719925474099 / 9007199254740992"
  by (subst fl_eval [where e = "- 4"]) (simp_all add: rne_def pw2_def)

lemma fl_pred270: "fl ((270 - 1 / 2 ^ 44) / 300) = 8106479329266891 / 9007199254740992"
  by (subst fl_eval [where e = "- 1"]) (simp_all add: rne_def pw2_def)

lemma fl_oppred: "fl (1 - 8106479329266891 / 9007199254740992)
    = 900719925474101 / 9007199254740992"
  by (subst fl_eval [where e = "- 4"]) (simp_all add: rne_def pw2_def)

lemma double_below_270:
  assumes "fl d = d" and "d < 270"
  shows "d \<le> 270 - 1 / 2 ^ 44"
proof (cases "d < 256")
  case True
  then show ?thesis by simp
next
  case False
  have "pw2 8 \<le> \<bar>d\<bar>" and "\<bar>d\<bar> < pw2 (8 + 1)" using False assms(2) by (simp_all add: pw2_def)
  then have "fl d = pw2 (8 - 52) * of_int (rne (d / pw2 (8 - 52)))" by (rule fl_eval) simp
  then obtain k :: int where k: "d = of_int k / 2 ^ 44"
    using assms(1) by (simp add: pw2_def power_int_minus_divide)
  then have "real_of_int k < real_of_int (270 * 2 ^ 44)" using assms(2) by (simp add: field_simps)
  then have "k < 270 * 2 ^ 44" by (simp only: of_int_less_iff)
  then have "k \<le> 270 * 2 ^ 44 - 1" by simp
  then have "real_of_int k \<le> real_of_int (270 * 2 ^ 44 - 1)" by (simp only: of_int_le_iff)
  then show ?thesis using k by (simp add: field_simps)
qed

lemma edge_threshold:
  assumes "fl d = d"
  shows "(fl (1 / 10) < max 0 (min 1 (fl (1 - fl (d / 300))))) = (d < 270)"
proof -
  let ?o = "fl (1 - fl (d / 300))"
  have "(fl (1 / 10) < max 0 (min 1 ?o)) = (fl (1 / 10) < ?o)"
    by (auto simp: fl_tenth max_def min_def)
  also have "\<dots> = (d < 270)"
  proof (cases "d < 270")
    case True
    then have "d \<le> 270 - 1 / 2 ^ 44" using assms double_below_270 by blast
    then have "d / 300 \<le> (270 - 1 / 2 ^ 44) / 300" by (simp add: divide_right_mono)
    then have "fl (d / 300) \<le> fl ((270 - 1 / 2 ^ 44) / 300)" by (rule fl_mono)
    then have "1 - 8106479329266891 / 9007199254740992 \<le> 1 - fl (d / 300)"
      by (simp only: fl_pred270 diff_left_mono)
    then have "fl (1 - 8106479329266891 / 9007199254740992) \<le> ?o" by (rule fl_mono)
    then have "900719925474101 / 9007199254740992 \<le> ?o" by (simp only: fl_oppred)
    then show ?thesis using True by (simp add: fl_tenth)
  next
    case False
    then have "270 / 300 \<le> d / 300" by (simp add: divide_right_mono)
    then have "fl (270 / 300) \<le> fl (d / 300)" by (rule fl_mono)
    then have "1 - fl (d / 300) \<le> 1 - 8106479329266893 / 9007199254740992"
      by (simp only: fl_270 diff_left_mono)
    then have "?o \<le> fl (1 - 8106479329266893 / 9007199254740992)" by (rule fl_mono)
    then have "?o \<le> 900719925474099 / 9007199254740992" by (simp only: fl_op270)
    then show ?thesis using False by (simp add: fl_tenth)
  qed
  finally show ?thesis .
qed

lemma dist_v_double: "fl (dist_v v1 v2) = dist_v v1 v2"
  by (simp add: dist_v_def hypot_def)

lemma opacity_gt_iff: "(opacity v1 v2 > fl (1 / 10)) = (dist_v v1 v2 < 270)"
  unfolding opacity_def using dist_v_double by (rule edge_threshold)

lemma getEdgeStyle_None_iff: "(getEdgeStyle v1 v2 = None) = (\<not> dist_v v1 v2 < 270)"
  using opacity_gt_iff [of v1 v2] by (simp add: getEdgeStyle_def)

lemma renderEdges_iff:
  "((i, j, s) \<in> set (renderEdges vs))
     = (i < j \<and> j < length vs \<and> getEdgeStyle (vs ! i) (vs ! j) = Some s)"
  by (auto simp: renderEdges_def split: option.splits if_splits)

text \<open>
  C2, as stated, fails: two vertices at distance 280, which is below 300, get no edge.
\<close>

theorem edge_below_300_not_drawn:
  "dist_v \<lparr>vertex_x = 0, vertex_y = 0, vx = 0, vy = 0, phase = 0,
            hue = 0, amplitude = 1, frequency = 1\<rparr>
          \<lparr>vertex_x = 280, vertex_y = 0, vx = 0, vy = 0, phase = 0,
            hue = 15, amplitude = 1, frequency = 1\<rparr> = 280
   \<and> (280::real) < 300
   \<and> getEdgeStyle \<lparr>vertex_x = 0, vertex_y = 0, vx = 0, vy = 0, phase = 0,
            hue = 0, amplitude = 1, frequency = 1\<rparr>
          \<lparr>vertex_x = 280, vertex_y = 0, vx = 0, vy = 0, phase = 0,
            hue = 15, amplitude = 1, frequency = 1\<rparr> = None
   \<and> renderEdges [\<lparr>vertex_x = 0, vertex_y = 0, vx = 0, vy = 0, phase = 0,
            hue = 0, amplitude = 1, frequency = 1\<rparr>,
          \<lparr>vertex_x = 280, vertex_y = 0, vx = 0, vy = 0, phase = 0,
            hue = 15, amplitude = 1, frequency = 1\<rparr>] = []"
proof -
  let ?a = "\<lparr>vertex_x = 0, vertex_y = 0, vx = 0, vy = 0, phase = 0,
            hue = 0, amplitude = 1, frequency = 1\<rparr>"
  let ?b = "\<lparr>vertex_x = 280, vertex_y = 0, vx = 0, vy = 0, phase = 0,
            hue = 15, amplitude = 1, frequency = 1\<rparr>"
  have d: "dist_v ?a ?b = 280"
    by (simp add: dist_v_def hypot_0 fl_neg_numeral fl_numeral)
  then have n: "getEdgeStyle ?a ?b = None"
    by (simp add: getEdgeStyle_None_iff)
  then have "renderEdges [?a, ?b] = []"
    by (simp add: renderEdges_def)
  with d n show ?thesis by simp
qed

text \<open>
  The threshold is on the distance as \<open>Math.hypot\<close> returns it: the points \<open>(0, 0)\<close> and
  \<open>(161.99999999999997, 216)\<close> are less than 270 apart, their computed distance is 270,
  and they get no edge.
\<close>

lemma edge_at_rounded_270:
  "dist_v \<lparr>vertex_x = 0, vertex_y = 0, vx = 0, vy = 0, phase = 0,
            hue = 0, amplitude = 1, frequency = 1\<rparr>
          \<lparr>vertex_x = 5699868278390783 / 35184372088832, vertex_y = 216, vx = 0, vy = 0,
            phase = 0, hue = 15, amplitude = 1, frequency = 1\<rparr> = 270
   \<and> getEdgeStyle \<lparr>vertex_x = 0, vertex_y = 0, vx = 0, vy = 0, phase = 0,
            hue = 0, amplitude = 1, frequency = 1\<rparr>
          \<lparr>vertex_x = 5699868278390783 / 35184372088832, vertex_y = 216, vx = 0, vy = 0,
            phase = 0, hue = 15, amplitude = 1, frequency = 1\<rparr> = None"
proof -
  let ?a = "\<lparr>vertex_x = 0, vertex_y = 0, vx = 0, vy = 0, phase = 0,
            hue = 0, amplitude = 1, frequency = 1\<rparr>"
  let ?b = "\<lparr>vertex_x = 5699868278390783 / 35184372088832, vertex_y = 216, vx = 0, vy = 0,
            phase = 0, hue = 15, amplitude = 1, frequency = 1\<rparr>"
  let ?s = "(5699868278390783 / 35184372088832)\<^sup>2 + 216\<^sup>2 :: real"
  have x: "fl (5699868278390783 / 35184372088832) = 5699868278390783 / 35184372088832"
    by (subst fl_eval [where e = 7]) (simp_all add: rne_def pw2_def)
  have t: "fl (270 - 1 / 2 ^ 45) = 270"
    by (subst fl_eval [where e = 8]) (simp_all add: rne_def pw2_def)
  have "(270 - 1 / 2 ^ 45)\<^sup>2 \<le> ?s" by (simp add: power2_eq_square)
  then have "270 - 1 / 2 ^ 45 \<le> sqrt ?s" by (rule real_le_rsqrt)
  then have "fl (270 - 1 / 2 ^ 45) \<le> fl (sqrt ?s)" by (rule fl_mono)
  then have l: "270 \<le> fl (sqrt ?s)" by (simp only: t)
  have "?s \<le> 270\<^sup>2" by (simp add: power2_eq_square)
  then have "sqrt ?s \<le> 270" by (intro real_le_lsqrt) simp_all
  then have "fl (sqrt ?s) \<le> fl 270" by (rule fl_mono)
  then have u: "fl (sqrt ?s) \<le> 270" by (simp add: fl_numeral)
  have "dist_v ?a ?b = fl (sqrt ?s)"
    by (simp add: dist_v_def hypot_def fl_minus x fl_numeral)
  then have d: "dist_v ?a ?b = 270" using l u by simp
  then have "getEdgeStyle ?a ?b = None" by (simp add: getEdgeStyle_None_iff)
  with d show ?thesis by simp
qed

text \<open>
  C2, amended. For every pair \<open>i < j\<close> of vertices an edge is drawn exactly when the
  computed opacity \<open>max(0, min(1, 1 - dist / 300))\<close> is greater than \<open>0.1\<close>, that is when
  \<open>dist\<close>, the distance \<open>Math.hypot\<close> computes, is strictly less than 270, and edges are
  drawn for such pairs only. At a computed distance of 300 the opacity is 0 and no edge is
  drawn; at a computed distance of 0 the opacity is 1 and the stroke width is 4.
\<close>

theorem edge_drawn_iff:
  "(\<forall>i j. i < j \<longrightarrow> j < length vs \<longrightarrow>
      (\<exists>s. (i, j, s) \<in> set (renderEdges vs)) = (dist_v (vs ! i) (vs ! j) < 270))
   \<and> (\<forall>i j s. (i, j, s) \<in> set (renderEdges vs) \<longrightarrow>
        i < j \<and> j < length vs \<and> getEdgeStyle (vs ! i) (vs ! j) = Some s)
   \<and> (getEdgeStyle v1 v2 \<noteq> None) = (opacity v1 v2 > fl (1 / 10))
   \<and> (opacity v1 v2 > fl (1 / 10)) = (dist_v v1 v2 < 270)
   \<and> (dist_v v1 v2 = 300 \<longrightarrow> opacity v1 v2 = 0 \<and> getEdgeStyle v1 v2 = None)
   \<and> (dist_v v1 v2 = 0 \<longrightarrow> opacity v1 v2 = 1
        \<and> getEdgeStyle v1 v2
            = Some \<lparr>strokeHue = fl (fl (hue v1 + hue v2) / 2), strokeAlpha = 1,
                    strokeWidth = 4\<rparr>)"
proof (intro conjI allI impI)
  fix i j
  assume "i < j" "j < length vs"
  then show "(\<exists>s. (i, j, s) \<in> set (renderEdges vs)) = (dist_v (vs ! i) (vs ! j) < 270)"
    using getEdgeStyle_None_iff [of "vs ! i" "vs ! j"] by (auto simp: renderEdges_iff)
next
  show "(getEdgeStyle v1 v2 \<noteq> None) = (opacity v1 v2 > fl (1 / 10))"
    by (simp add: getEdgeStyle_def)
next
  show "(opacity v1 v2 > fl (1 / 10)) = (dist_v v1 v2 < 270)"
    by (rule opacity_gt_iff)
next
  assume "dist_v v1 v2 = 300"
  then show "opacity v1 v2 = 0" by (simp add: opacity_def)
next
  assume "dist_v v1 v2 = 300"
  then show "getEdgeStyle v1 v2 = None" by (simp add: getEdgeStyle_None_iff)
next
  assume "dist_v v1 v2 = 0"
  then show "opacity v1 v2 = 1" by (simp add: opacity_def)
next
  assume "dist_v v1 v2 = 0"
  then have "opacity v1 v2 = 1" by (simp add: opacity_def)
  then show "getEdgeStyle v1 v2
      = Some \<lparr>strokeHue = fl (fl (hue v1 + hue v2) / 2), strokeAlpha = 1, strokeWidth = 4\<rparr>"
    by (simp add: getEdgeStyle_def fl_tenth fl_numeral)
qed (auto simp: renderEdges_iff)

theorem edge_drawn_iff_witness:
  "(0::nat) < 1
   \<and> (1::nat) < length [\<lparr>vertex_x = 0, vertex_y = 0, vx = 0, vy = 0, phase = 0,
            hue = 0, amplitude = 1, frequency = 1\<rparr>,
          \<lparr>vertex_x = 100, vertex_y = 0, vx = 0, vy = 0, phase = 0,
            hue = 15, amplitude = 1, frequency = 1\<rparr>]
   \<and> dist_v \<lparr>vertex_x = 0, vertex_y = 0, vx = 0, vy = 0, phase = 0,
            hue = 0, amplitude = 1, frequency = 1\<rparr>
          \<lparr>vertex_x = 100, vertex_y = 0, vx = 0, vy = 0, phase = 0,
            hue = 15, amplitude = 1, frequency = 1\<rparr> < 270
   \<and> (\<exists>s. (0, 1, s) \<in> set (renderEdges
         [\<lparr>vertex_x = 0, vertex_y = 0, vx = 0, vy = 0, phase = 0,
            hue = 0, amplitude = 1, frequency = 1\<rparr>,
          \<lparr>vertex_x = 100, vertex_y = 0, vx = 0, vy = 0, phase = 0,
            hue = 15, amplitude = 1, frequency = 1\<rparr>]))
   \<and> dist_v \<lparr>vertex_x = 0, vertex_y = 0, vx = 0, vy = 0, phase = 0,
            hue = 0, amplitude = 1, frequency = 1\<rparr>
          \<lparr>vertex_x = 0, vertex_y = 0, vx = 0, vy = 0, phase = 0,
            hue = 0, amplitude = 1, frequency = 1\<rparr> = 0
   \<and> getEdgeStyle \<lparr>vertex_x = 0, vertex_y = 0, vx = 0, vy = 0, phase = 0,
            hue = 0, amplitude = 1, frequency = 1\<rparr>
          \<lparr>vertex_x = 0, vertex_y = 0, vx = 0, vy = 0, phase = 0,
            hue = 0, amplitude = 1, frequency = 1\<rparr>
       = Some \<lparr>strokeHue = 0, strokeAlpha = 1, strokeWidth = 4\<rparr>"
proof -
  let ?a = "\<lparr>vertex_x = 0, vertex_y = 0, vx = 0, vy = 0, phase = 0,
            hue = 0, amplitude = 1, frequency = 1\<rparr>"
  let ?b = "\<lparr>vertex_x = 100, vertex_y = 0, vx = 0, vy = 0, phase = 0,
            hue = 15, amplitude = 1, frequency = 1\<rparr>"
  have ij: "(0::nat) < 1" by simp
  have l: "(1::nat) < length [?a, ?b]" by simp
  have d: "dist_v ([?a, ?b] ! 0) ([?a, ?b] ! 1) < 270"
    by (simp add: dist_v_def hypot_0 fl_neg_numeral fl_numeral)
  have z: "dist_v ?a ?a = 0" by (simp add: dist_v_def hypot_0)
  note t = edge_drawn_iff [of "[?a, ?b]" ?a ?a]
  from t ij l d have e: "\<exists>s. (0, 1, s) \<in> set (renderEdges [?a, ?b])"
    by blast
  from t z have g: "getEdgeStyle ?a ?a
      = Some \<lparr>strokeHue = fl (fl (hue ?a + hue ?a) / 2), strokeAlpha = 1, strokeWidth = 4\<rparr>"
    by blast
  have d': "dist_v ?a ?b < 270" using d by simp
  have g': "getEdgeStyle ?a ?a = Some \<lparr>strokeHue = 0, strokeAlpha = 1, strokeWidth = 4\<rparr>"
    using g by simp
  from ij l d' e z g' show ?thesis by (intro conjI)
qed

end
